theory Spec2Isabelle
  imports Complex_Main "HOL-Library.Word" "HOL-Library.Log_Nat" "HOL-Library.Sublist"
begin

unbundle bit_operations_syntax

section \<open>FloatVectorPool (util/FloatVectorPool.cpp)\<close>

text \<open>
  The pool holds two parallel vectors: \<open>_vectors\<close>, shared pointers to
  \<open>std::vector<float_t>\<close>, and \<open>_inUse\<close>, one busy flag per pointer. A
  shared pointer is modelled as the address it holds together with the vector it points
  to; the pool logic compares addresses (\<open>vec.get() == _vectors.at(idx).get()\<close>) and
  reads only the size of the pointee. \<open>heapNext\<close> is the allocator behind
  \<open>std::make_shared\<close>: every address below it has been handed out, and a new vector
  gets the address \<open>heapNext\<close>, which no live pointer holds. Float contents are
  rationals; a new vector is value-initialised to zeros.

  \<open>vector::at\<close> throws \<open>std::out_of_range\<close> and \<open>operator[]\<close> is undefined
  beyond the end; both are results of the model.
\<close>

type_synonym addr = nat

type_synonym float_vec_ptr = "addr \<times> rat list"

record FloatVectorPool =
  vectors :: "float_vec_ptr list"
  inUse :: "bool list"
  heapNext :: addr

datatype pool_error = OutOfRange | UndefinedIndex

text \<open>\<open>FloatVectorPool::find\<close>: the index of the first size-matched entry that is not
  in use, or \<open>-1\<close>. The right operand of \<open>&&\<close> is evaluated only when the sizes
  match.\<close>

function find_loop :: "FloatVectorPool \<Rightarrow> nat \<Rightarrow> nat \<Rightarrow> pool_error + int" where
  "find_loop p sz idx =
     (if idx < length (vectors p) then
        (if length (snd (vectors p ! idx)) = sz then
           (if idx < length (inUse p) then
              (if \<not> inUse p ! idx then Inr (int idx) else find_loop p sz (idx + 1))
            else Inl OutOfRange)
         else find_loop p sz (idx + 1))
      else Inr (- 1))"
  by pat_completeness auto
termination
  by (relation "measure (\<lambda>(p, sz, idx). length (vectors p) - idx)") auto

declare find_loop.simps [simp del]

definition find_pool :: "FloatVectorPool \<Rightarrow> nat \<Rightarrow> pool_error + int" where
  "find_pool p sz = find_loop p sz 0"

text \<open>\<open>FloatVectorPool::get\<close>: the new pool and the shared pointer returned.\<close>

definition get_pool :: "FloatVectorPool \<Rightarrow> nat \<Rightarrow> pool_error + (FloatVectorPool \<times> float_vec_ptr)" where
  "get_pool p sz =
     (case find_pool p sz of
        Inl e \<Rightarrow> Inl e
      | Inr idx \<Rightarrow>
          if idx \<ge> 0 then
            (if nat idx < length (inUse p) then
               (let p' = p\<lparr>inUse := (inUse p)[nat idx := True]\<rparr>
                in if nat idx < length (vectors p') then Inr (p', vectors p' ! nat idx)
                   else Inl OutOfRange)
             else Inl OutOfRange)
          else
            (let v = (heapNext p, replicate sz (0::rat));
                 p' = p\<lparr>vectors := vectors p @ [v], inUse := inUse p @ [True],
                        heapNext := Suc (heapNext p)\<rparr>
             in Inr (p', last (vectors p'))))"

text \<open>\<open>FloatVectorPool::release\<close>: the first entry holding the address is marked free;
  when none holds it an error is logged (the second component counts the log lines).\<close>

function release_loop :: "FloatVectorPool \<Rightarrow> addr \<Rightarrow> nat \<Rightarrow> pool_error + (FloatVectorPool \<times> nat)" where
  "release_loop p a idx =
     (if idx < length (vectors p) then
        (if a = fst (vectors p ! idx) then
           (if idx < length (inUse p) then Inr (p\<lparr>inUse := (inUse p)[idx := False]\<rparr>, 0)
            else Inl OutOfRange)
         else release_loop p a (idx + 1))
      else Inr (p, 1))"
  by pat_completeness auto
termination
  by (relation "measure (\<lambda>(p, a, idx). length (vectors p) - idx)") auto

declare release_loop.simps [simp del]

definition release_pool :: "FloatVectorPool \<Rightarrow> float_vec_ptr \<Rightarrow> pool_error + (FloatVectorPool \<times> nat)" where
  "release_pool p vec = release_loop p (fst vec) 0"

text \<open>\<open>FloatVectorPool::clear\<close>: the entries in use are copied, in order, into two new
  vectors, which replace the old ones. The loop runs over \<open>_inUse\<close> and reads
  \<open>_vectors\<close> with \<open>operator[]\<close>.\<close>

function clear_loop ::
  "FloatVectorPool \<Rightarrow> nat \<Rightarrow> float_vec_ptr list \<Rightarrow> bool list \<Rightarrow>
     pool_error + (float_vec_ptr list \<times> bool list)" where
  "clear_loop p idx vs us =
     (if idx < length (inUse p) then
        (if inUse p ! idx then
           (if idx < length (vectors p)
            then clear_loop p (idx + 1) (vs @ [vectors p ! idx]) (us @ [inUse p ! idx])
            else Inl UndefinedIndex)
         else clear_loop p (idx + 1) vs us)
      else Inr (vs, us))"
  by pat_completeness auto
termination
  by (relation "measure (\<lambda>(p, idx, vs, us). length (inUse p) - idx)") auto

declare clear_loop.simps [simp del]

definition clear_pool :: "FloatVectorPool \<Rightarrow> pool_error + FloatVectorPool" where
  "clear_pool p =
     (case clear_loop p 0 [] [] of
        Inl e \<Rightarrow> Inl e
      | Inr (vs, us) \<Rightarrow> Inr (p\<lparr>vectors := vs, inUse := us\<rparr>))"

text \<open>The invariant asserted in the source (\<open>_vectors.size() == _inUse.size()\<close>),
  together with the allocator's guarantee that the pool's pointers are distinct addresses
  already handed out.\<close>

definition pool_inv :: "FloatVectorPool \<Rightarrow> bool" where
  "pool_inv p \<longleftrightarrow>
     length (vectors p) = length (inUse p) \<and>
     distinct (map fst (vectors p)) \<and>
     list_all (\<lambda>v. fst v < heapNext p) (vectors p)"

text \<open>An existing entry that \<open>get\<close> may reuse: size-matched and not in use.\<close>

definition reusable :: "FloatVectorPool \<Rightarrow> nat \<Rightarrow> nat \<Rightarrow> bool" where
  "reusable p sz i \<longleftrightarrow> i < length (vectors p) \<and> length (snd (vectors p ! i)) = sz \<and> \<not> inUse p ! i"

text \<open>A pool with one busy two-element vector and one free three-element vector.\<close>

definition pool_example :: FloatVectorPool where
  "pool_example = \<lparr>vectors = [(0, [0, 0]), (1, [0, 0, 0])], inUse = [True, False], heapNext = 2\<rparr>"

section \<open>Metadata block (raw-to-depth-cpp/RtdMetadata.h, RtdMetadata.cpp)\<close>

text \<open>
  The metadata arrives as the first video line of every ROI: an array of \<open>uint16_t\<close>
  words which the code reads through \<open>struct Metadata_t\<close>. The block is modelled as
  the list of these words; a field of the struct is the word at the field's offset. The
  struct has 200 words of per-ROI fields followed by eight \<open>PerFovMetadata_t\<close> of 32
  words each, so \<open>sizeof(Metadata_t)\<close> is 912 bytes.
\<close>

type_synonym metadata = "16 word list"

definition MD_WORDS :: nat where "MD_WORDS = 456"
definition SIZEOF_Metadata_t :: nat where "SIZEOF_Metadata_t = 2 * MD_WORDS"

definition OFS_sensorMode :: nat where "OFS_sensorMode = 0"
definition OFS_roiStartRow :: nat where "OFS_roiStartRow = 1"
definition OFS_roiNumRows :: nat where "OFS_roiNumRows = 2"
definition OFS_f0ModulationIndex :: nat where "OFS_f0ModulationIndex = 3"
definition OFS_f1ModulationIndex :: nat where "OFS_f1ModulationIndex = 4"
definition OFS_startStopFlags :: nat where "OFS_startStopFlags = 15"
definition OFS_roiCounter :: nat where "OFS_roiCounter = 23"
definition OFS_timestamp0 :: nat where "OFS_timestamp0 = 24"
definition OFS_timestamp1 :: nat where "OFS_timestamp1 = 25"
definition OFS_timestamp2 :: nat where "OFS_timestamp2 = 26"
definition OFS_timestamp3 :: nat where "OFS_timestamp3 = 27"
definition OFS_timestamp4 :: nat where "OFS_timestamp4 = 28"
definition OFS_timestamp5 :: nat where "OFS_timestamp5 = 29"
definition OFS_timestamp6 :: nat where "OFS_timestamp6 = 30"
definition OFS_reduceMode :: nat where "OFS_reduceMode = 49"
definition OFS_random_scan_table_tag :: nat where "OFS_random_scan_table_tag = 73"
definition PER_FOV_METADATA_OFFSET :: nat where "PER_FOV_METADATA_OFFSET = 200"
definition PER_FOV_WORDS :: nat where "PER_FOV_WORDS = 32"
definition PFOFS_binMode :: nat where "PFOFS_binMode = 1"
definition PFOFS_fovRowStart :: nat where "PFOFS_fovRowStart = 3"
definition PFOFS_fovNumRows :: nat where "PFOFS_fovNumRows = 4"
definition PFOFS_fovNumRois :: nat where "PFOFS_fovNumRois = 5"
definition PFOFS_rtdAlgorithmCommon :: nat where "PFOFS_rtdAlgorithmCommon = 6"
definition PFOFS_randomFovTag :: nat where "PFOFS_randomFovTag = 10"

lemmas OFS_defs = OFS_sensorMode_def OFS_roiStartRow_def OFS_roiNumRows_def
  OFS_f0ModulationIndex_def OFS_f1ModulationIndex_def OFS_startStopFlags_def
  OFS_roiCounter_def OFS_timestamp0_def OFS_timestamp1_def OFS_timestamp2_def
  OFS_timestamp3_def OFS_timestamp4_def OFS_timestamp5_def OFS_timestamp6_def
  OFS_reduceMode_def OFS_random_scan_table_tag_def PER_FOV_METADATA_OFFSET_def
  PER_FOV_WORDS_def PFOFS_binMode_def PFOFS_fovRowStart_def PFOFS_fovNumRows_def
  PFOFS_fovNumRois_def PFOFS_rtdAlgorithmCommon_def PFOFS_randomFovTag_def

subsection \<open>RtdMetadata::adjustTimestamp\<close>

text \<open>
  The seconds of the timestamp are 52 bits: \<open>s00..s03\<close> in the top nibble of
  \<open>timestamp2\<close> and twelve bits in bits 4..15 of each of \<open>timestamp3..6\<close>. The
  function decodes them into a 64-bit value, adds the offset and writes the five words
  back. \<open>seconds_of\<close> is the decoding expression of the source.
\<close>

definition seconds_of :: "metadata \<Rightarrow> 64 word" where
  "seconds_of md =
     (drop_bit 12 (ucast (md ! OFS_timestamp2)) OR
      (ucast (md ! OFS_timestamp3) AND 0xfff0) OR
      push_bit 12 (ucast (md ! OFS_timestamp4) AND 0xfff0) OR
      push_bit 24 (ucast (md ! OFS_timestamp5) AND 0xfff0) OR
      push_bit 36 (ucast (md ! OFS_timestamp6) AND 0xfff0))"

definition adjustTimestamp :: "metadata \<Rightarrow> 64 word \<Rightarrow> metadata" where
  "adjustTimestamp md offset =
     (if offset \<noteq> 0 then
        (let secs = seconds_of md + offset;
             ts2 = (ucast (ucast (ucast (md ! OFS_timestamp2) AND (0xff0 :: 64 word)) :: 16 word)
                      OR push_bit 12 (secs AND 0xf)) :: 64 word
         in md[OFS_timestamp2 := ucast ts2,
               OFS_timestamp3 := ucast (secs AND 0x000000000000fff0),
               OFS_timestamp4 := ucast (drop_bit 12 (secs AND 0x000000000fff0000)),
               OFS_timestamp5 := ucast (drop_bit 24 (secs AND 0x000000fff0000000)),
               OFS_timestamp6 := ucast (drop_bit 36 (secs AND 0x000fff0000000000))])
      else md)"

text \<open>The metadata of the unit test \<open>adjust_metadata_time_test\<close>: all words zero
  except the seven timestamp words.\<close>

definition md_timestamp_test :: metadata where
  "md_timestamp_test =
     (replicate MD_WORDS 0)
       [OFS_timestamp0 := 0x0125, OFS_timestamp1 := 0x3456, OFS_timestamp2 := 0x6787,
        OFS_timestamp3 := 0x9ab8, OFS_timestamp4 := 0xcde9, OFS_timestamp5 := 0xf01a,
        OFS_timestamp6 := 0x234b]"

section \<open>IEEE arithmetic on rationals\<close>

text \<open>
  The engine computes in \<open>float_t\<close> (IEEE binary32) and, in a few getters, in
  \<open>double\<close>. A finite floating-point number is a rational, and every IEEE operation
  returns the exact result rounded to the nearest representable number, ties to even.
  \<open>fl p\<close> is that rounding for a significand of \<open>p\<close> bits; the exponent range is not
  modelled (no value in this development comes near overflow or the subnormals), and
  neither are NaN and the infinities.
\<close>

definition pow2 :: "int \<Rightarrow> rat" where
  "pow2 k = (if 0 \<le> k then 2 ^ nat k else 1 / 2 ^ nat (- k))"

text \<open>\<open>ilog2 x\<close> is the exponent \<open>e\<close> with \<open>2^e \<le> x < 2^(e+1)\<close>, for positive \<open>x\<close>.\<close>

definition ilog2 :: "rat \<Rightarrow> int" where
  "ilog2 x =
     (let (n, d) = quotient_of x;
          k = bitlen n - bitlen d
      in if pow2 k \<le> x then k else k - 1)"

definition round_half_even :: "rat \<Rightarrow> int" where
  "round_half_even q =
     (let r = \<lfloor>q\<rfloor>; f = q - of_int r
      in if f < 1 / 2 then r else if 1 / 2 < f then r + 1 else if even r then r else r + 1)"

definition fl :: "nat \<Rightarrow> rat \<Rightarrow> rat" where
  "fl p x =
     (if x = 0 then 0
      else let a = \<bar>x\<bar>; u = pow2 (ilog2 a - (int p - 1))
           in sgn x * of_int (round_half_even (a / u)) * u)"

definition f32 :: "rat \<Rightarrow> rat" where "f32 = fl 24"
definition f64 :: "rat \<Rightarrow> rat" where "f64 = fl 53"

text \<open>\<open>roundf\<close>: to the nearest integer, halves away from zero.\<close>

definition roundf :: "rat \<Rightarrow> int" where
  "roundf x = (if 0 \<le> x then \<lfloor>x + 1 / 2\<rfloor> else \<lceil>x - 1 / 2\<rceil>)"

section \<open>GPixel (raw-to-depth-cpp/GPixel.cpp)\<close>

text \<open>The two lookup tables, with the constant expressions of the source evaluated in
  binary32. The first three rows of \<open>IDX_TO_GCF_LUT\<close> have ten entries, the others
  eleven, as written in the source.\<close>

definition frq :: "rat \<Rightarrow> rat" where
  "frq n = f32 (f32 1000000000 / f32 (3 * n))"

definition IDX_TO_FRQ_LUT :: "rat list" where
  "IDX_TO_FRQ_LUT = [0, 0, 0, frq 3, frq 4, frq 5, frq 6, frq 7, frq 8, frq 9, frq 10]"

definition GCF34 :: rat where "GCF34 = frq 12"
definition GCF45 :: rat where "GCF45 = frq 20"
definition GCF56 :: rat where "GCF56 = frq 30"
definition GCF67 :: rat where "GCF67 = frq 42"
definition GCF78 :: rat where "GCF78 = frq 56"
definition GCF89 :: rat where "GCF89 = frq 72"
definition GCF90 :: rat where "GCF90 = frq 90"

definition IDX_TO_GCF_LUT :: "rat list list" where
  "IDX_TO_GCF_LUT =
     [[0,0,0, 0,0,0,0,0,0,0],
      [0,0,0, 0,0,0,0,0,0,0],
      [0,0,0, 0,0,0,0,0,0,0],
      [0,0,0, 0,     GCF34, 0,     0,     0,     0,     0,     0    ],
      [0,0,0, GCF34, 0,     GCF45, 0,     0,     0,     0,     0    ],
      [0,0,0, 0,     GCF45, 0,     GCF56, 0,     0,     0,     0    ],
      [0,0,0, 0,     0,     GCF56, 0,     GCF67, 0,     0,     0    ],
      [0,0,0, 0,     0,     0,     GCF67, 0,     GCF78, 0,     0    ],
      [0,0,0, 0,     0,     0,     0,     GCF78, 0,     GCF89, 0    ],
      [0,0,0, 0,     0,     0,     0,     0,     GCF89, 0,     GCF90],
      [0,0,0, 0,     0,     0,     0,     0,     0,     GCF90, 0    ]]"

text \<open>
  \<open>GPixel::getGcf\<close>. The tables are \<open>std::vector\<close>s read with \<open>operator[]\<close>,
  which does not check the index: a read past the end is undefined behaviour, the result
  \<open>Inl IndexOutOfBounds\<close> of the model. A normal return is the value together with the
  number of \<open>LLogErr\<close> lines written. The second operand of \<open>||\<close> is read only
  when the first comparison is false. The assertions compare table entries only.
\<close>

datatype gcf_error = IndexOutOfBounds

definition getGcf :: "nat \<Rightarrow> nat \<Rightarrow> gcf_error + (int \<times> nat)" where
  "getGcf f0ModulationIndex f1ModulationIndex =
     (if \<not> f0ModulationIndex < length IDX_TO_FRQ_LUT then Inl IndexOutOfBounds
      else if 0 = IDX_TO_FRQ_LUT ! f0ModulationIndex then Inr (0, 1)
      else if \<not> f1ModulationIndex < length IDX_TO_FRQ_LUT then Inl IndexOutOfBounds
      else if 0 = IDX_TO_FRQ_LUT ! f1ModulationIndex then Inr (0, 1)
      else if \<not> f0ModulationIndex < length IDX_TO_GCF_LUT then Inl IndexOutOfBounds
      else if \<not> f1ModulationIndex < length (IDX_TO_GCF_LUT ! f0ModulationIndex)
           then Inl IndexOutOfBounds
      else let gcf = IDX_TO_GCF_LUT ! f0ModulationIndex ! f1ModulationIndex
           in if 0 = gcf then Inr (0, 1) else Inr (roundf gcf, 0))"

text \<open>What the specification says the lookup returns: the rounded value of
  \<open>1e9 / (3 n0 n1)\<close> and no error line for adjacent indices in \<open>{3..10}\<close>, and
  0 with one error line for any other pair.\<close>

definition gcf_expected :: "nat \<Rightarrow> nat \<Rightarrow> gcf_error + (int \<times> nat)" where
  "gcf_expected n0 n1 =
     (if 3 \<le> n0 \<and> n0 \<le> 10 \<and> 3 \<le> n1 \<and> n1 \<le> 10 \<and> (n0 = n1 + 1 \<or> n1 = n0 + 1)
      then Inr (roundf (1000000000 / (3 * of_nat n0 * of_nat n1)), 0) else Inr (0, 1))"

section \<open>Framed TCP output (net-pipeline/network_streamer.cpp)\<close>

text \<open>
  \<open>TCPWrappedStreamer::NetworkSend\<close> (processed data) and \<open>NetworkROISend\<close>
  (raw ROIs) build a frame in a member buffer and push it through \<open>send\<close> until
  every byte is written or a call fails. The socket is the environment: the results of
  the successive \<open>send\<close> calls are an input of the model, either the number of bytes
  the kernel accepted or a failure with its \<open>errno\<close>. The bytes accepted are the
  bytes put on the stream.
\<close>

type_synonym byte = "8 word"

datatype PipelineOutputType = RawData | ProcessedData

datatype send_result = Sent nat | Failed int

definition PROCESSEDDATA_PAYLOAD_MAX_SIZE :: nat where "PROCESSEDDATA_PAYLOAD_MAX_SIZE = 1472"
definition FRAMEING_HEADER_SIZE :: nat where "FRAMEING_HEADER_SIZE = 16"
definition ROI_SIZE :: nat where "ROI_SIZE = 2 * (3 * 640 + 3 * 2 * 20 * 640)"
definition RAWDATA_PAYLOAD_MAX_SIZE :: nat where "RAWDATA_PAYLOAD_MAX_SIZE = ROI_SIZE"
definition ECONNRESET :: int where "ECONNRESET = 104"
definition EPIPE :: int where "EPIPE = 32"

record TCPWrappedStreamer =
  m_outputType :: PipelineOutputType
  m_clientfd :: int
  m_tcpBufferSpace :: "byte list"
  m_tcpROIBufferSpace :: "byte list"

text \<open>What a call leaves behind: the streamer, the bytes accepted by the socket, and the
  number of error lines logged.\<close>

record send_outcome =
  streamer :: TCPWrappedStreamer
  wire :: "byte list"
  errors_logged :: nat

text \<open>\<open>framingHeader->len = htonl(len)\<close> stores the low 32 bits of \<open>len\<close> in network
  byte order at the start of the buffer; \<open>FramingHeader\<close> is packed, 16 bytes.\<close>

definition store_htonl :: "byte list \<Rightarrow> nat \<Rightarrow> byte list" where
  "store_htonl buf len =
     (let w = (word_of_nat len :: 32 word)
      in buf[0 := ucast (drop_bit 24 w), 1 := ucast (drop_bit 16 w),
             2 := ucast (drop_bit 8 w), 3 := ucast w])"

definition memcpy_at :: "byte list \<Rightarrow> nat \<Rightarrow> byte list \<Rightarrow> byte list" where
  "memcpy_at buf ofs src = take ofs buf @ src @ drop (ofs + length src) buf"

text \<open>The loop \<open>while (len > 0)\<close>: each successful \<open>send\<close> accepts a prefix of what
  is left (at most \<open>len\<close> bytes, by the contract of \<open>send\<close>). The result is
  \<open>None\<close> when the loop has not ended after the given results: a \<open>send\<close> that
  keeps returning 0 keeps the loop running.\<close>

fun send_loop :: "send_result list \<Rightarrow> byte list \<Rightarrow> (byte list \<times> int option) option" where
  "send_loop rs [] = Some ([], None)"
| "send_loop [] (b # bs) = None"
| "send_loop (Failed e # rs) (b # bs) = Some ([], Some e)"
| "send_loop (Sent n # rs) (b # bs) =
     (case send_loop rs (drop n (b # bs)) of
        None \<Rightarrow> None
      | Some (w, f) \<Rightarrow> Some (take n (b # bs) @ w, f))"

definition CloseConnection :: "TCPWrappedStreamer \<Rightarrow> TCPWrappedStreamer" where
  "CloseConnection s = s\<lparr>m_clientfd := - 1\<rparr>"

definition after_send :: "TCPWrappedStreamer \<Rightarrow> byte list \<times> int option \<Rightarrow> send_outcome" where
  "after_send s r =
     (case snd r of
        None \<Rightarrow> \<lparr>streamer = s, wire = fst r, errors_logged = 0\<rparr>
      | Some e \<Rightarrow>
          if e = ECONNRESET \<or> e = EPIPE
          then \<lparr>streamer = CloseConnection s, wire = fst r, errors_logged = 0\<rparr>
          else \<lparr>streamer = s, wire = fst r, errors_logged = 1\<rparr>)"

definition NetworkSend ::
  "TCPWrappedStreamer \<Rightarrow> byte list \<Rightarrow> send_result list \<Rightarrow> send_outcome option" where
  "NetworkSend s buffer rs =
     (let len = length buffer in
      if m_outputType s \<noteq> ProcessedData
        then Some \<lparr>streamer = s, wire = [], errors_logged = 1\<rparr>
      else if len > PROCESSEDDATA_PAYLOAD_MAX_SIZE
        then Some \<lparr>streamer = s, wire = [], errors_logged = 1\<rparr>
      else if m_clientfd s < 0
        then Some \<lparr>streamer = s, wire = [], errors_logged = 0\<rparr>
      else
        (let b0 = replicate (length (m_tcpBufferSpace s)) 0;
             b1 = store_htonl b0 len;
             b2 = memcpy_at b1 FRAMEING_HEADER_SIZE buffer;
             s' = s\<lparr>m_tcpBufferSpace := b2\<rparr>
         in map_option (after_send s') (send_loop rs (take (len + FRAMEING_HEADER_SIZE) b2))))"

definition NetworkROISend ::
  "TCPWrappedStreamer \<Rightarrow> byte list \<Rightarrow> send_result list \<Rightarrow> send_outcome option" where
  "NetworkROISend s roi rs =
     (let len = length roi in
      if m_outputType s \<noteq> RawData
        then Some \<lparr>streamer = s, wire = [], errors_logged = 1\<rparr>
      else if len > RAWDATA_PAYLOAD_MAX_SIZE
        then Some \<lparr>streamer = s, wire = [], errors_logged = 1\<rparr>
      else if m_clientfd s < 0
        then Some \<lparr>streamer = s, wire = [], errors_logged = 0\<rparr>
      else
        (let b0 = replicate (length (m_tcpROIBufferSpace s)) 0;
             b1 = store_htonl b0 len;
             b2 = memcpy_at b1 FRAMEING_HEADER_SIZE roi;
             s' = s\<lparr>m_tcpROIBufferSpace := b2\<rparr>
         in map_option (after_send s') (send_loop rs (take (len + FRAMEING_HEADER_SIZE) b2))))"

text \<open>The streamer as constructed: the two member arrays have their declared sizes.\<close>

definition streamer_wf :: "TCPWrappedStreamer \<Rightarrow> bool" where
  "streamer_wf s \<longleftrightarrow>
     length (m_tcpBufferSpace s) = PROCESSEDDATA_PAYLOAD_MAX_SIZE + FRAMEING_HEADER_SIZE \<and>
     length (m_tcpROIBufferSpace s) = RAWDATA_PAYLOAD_MAX_SIZE + FRAMEING_HEADER_SIZE"

text \<open>Reading a big-endian 32-bit field, as a receiver of the stream does.\<close>

definition be32 :: "byte list \<Rightarrow> nat" where
  "be32 bs = unat (bs ! 0) * 2 ^ 24 + unat (bs ! 1) * 2 ^ 16 + unat (bs ! 2) * 2 ^ 8 + unat (bs ! 3)"

definition streamer_example :: TCPWrappedStreamer where
  "streamer_example =
     \<lparr>m_outputType = ProcessedData, m_clientfd = 5,
      m_tcpBufferSpace = replicate (PROCESSEDDATA_PAYLOAD_MAX_SIZE + FRAMEING_HEADER_SIZE) 0xff,
      m_tcpROIBufferSpace = replicate (RAWDATA_PAYLOAD_MAX_SIZE + FRAMEING_HEADER_SIZE) 0xff\<rparr>"

text \<open>A framed message, by the words of the specification: a 16-byte header whose leading
  big-endian field is the byte count of the payload and whose other 12 bytes are zero,
  followed by the payload.\<close>

definition framed :: "byte list \<Rightarrow> byte list \<Rightarrow> bool" where
  "framed payload w \<longleftrightarrow>
     (\<exists>hdr. length hdr = 16 \<and> be32 hdr = length payload \<and> drop 4 hdr = replicate 12 0 \<and>
            w = hdr @ payload)"

text \<open>Every \<open>send\<close> accepts at least one byte.\<close>

definition sends_progress :: "send_result list \<Rightarrow> bool" where
  "sends_progress rs = list_all (\<lambda>r. case r of Sent n \<Rightarrow> 0 < n | Failed e \<Rightarrow> False) rs"

section \<open>Tap rotation (raw-to-depth-cpp/RawToDepthDsp.cpp)\<close>

text \<open>
  \<open>RawToDepthDsp::tapRotation\<close> reads the ROI as floats from \<open>roiVector\<close> and
  writes \<open>frame\<close>. With tap accumulation done by the engine the ROI holds six images
  of \<open>roiImageStride\<close> floats, ordered permutation-major with the two frequencies
  interleaved; image \<open>2 i + freqIdx\<close> is permutation \<open>i\<close> of the frequency. The
  element type is left open: the function only copies and adds, and the sums are written
  in the order the source evaluates them. The vectors are read and written through
  raw pointers and \<open>operator[]\<close>; an access past the end is a result of the model.
  The assertions of the source are compiled out in release builds and are not part of
  the model. Sizes are far below \<open>2^32\<close>, so the index arithmetic is on \<open>nat\<close>.
\<close>

datatype dsp_error = ReadPastEnd | WritePastEnd

text \<open>The copy loop of the branch \<open>if (!doTapRotation)\<close>.\<close>

function copy_loop :: "'a list \<Rightarrow> nat \<Rightarrow> nat \<Rightarrow> 'a list \<Rightarrow> dsp_error + 'a list" where
  "copy_loop roiVector roiVectorIdx idx frame =
     (if idx < length frame then
        (if roiVectorIdx < length roiVector
         then copy_loop roiVector (roiVectorIdx + 1) (idx + 1) (frame[idx := roiVector ! roiVectorIdx])
         else Inl ReadPastEnd)
      else Inr frame)"
  by pat_completeness auto
termination
  by (relation "measure (\<lambda>(r, k, idx, frame). length frame - idx)") auto

declare copy_loop.simps [simp del]

text \<open>The summation loop over the \<open>n\<close> pixels; \<open>o1\<close>, \<open>o2\<close>, \<open>o3\<close> are the
  offsets of \<open>abc1\<close>, \<open>abc2\<close>, \<open>abc3\<close> in \<open>roiVector\<close>. \<open>pixel_access\<close>
  says whether the nine reads and three writes of one iteration stay inside the vectors;
  \<open>rotate_pixel\<close> is the body of the loop.\<close>

definition pixel_access :: "'a list \<Rightarrow> nat \<Rightarrow> nat \<Rightarrow> nat \<Rightarrow> nat \<Rightarrow> 'a list \<Rightarrow> dsp_error option" where
  "pixel_access roiVector o1 o2 o3 idx frame =
     (if \<not> (o1 + 3 * idx + 2 < length roiVector \<and> o2 + 3 * idx + 2 < length roiVector \<and>
             o3 + 3 * idx + 2 < length roiVector)
        then Some ReadPastEnd
      else if \<not> 3 * idx + 2 < length frame then Some WritePastEnd
      else None)"

definition rotate_pixel :: "'a::plus list \<Rightarrow> nat \<Rightarrow> nat \<Rightarrow> nat \<Rightarrow> nat \<Rightarrow> 'a list \<Rightarrow> 'a list" where
  "rotate_pixel roiVector o1 o2 o3 idx frame =
     (let rawA1 = roiVector ! (o1 + 3 * idx + 0);
          rawB1 = roiVector ! (o1 + 3 * idx + 1);
          rawC1 = roiVector ! (o1 + 3 * idx + 2);
          rawA2 = roiVector ! (o2 + 3 * idx + 0);
          rawB2 = roiVector ! (o2 + 3 * idx + 1);
          rawC2 = roiVector ! (o2 + 3 * idx + 2);
          rawA3 = roiVector ! (o3 + 3 * idx + 0);
          rawB3 = roiVector ! (o3 + 3 * idx + 1);
          rawC3 = roiVector ! (o3 + 3 * idx + 2);
          aSum = rawA1 + rawB2 + rawC3;
          bSum = rawB1 + rawC2 + rawA3;
          cSum = rawC1 + rawA2 + rawB3
      in frame[3 * idx + 0 := aSum, 3 * idx + 1 := bSum, 3 * idx + 2 := cSum])"

function rotate_loop ::
  "'a::plus list \<Rightarrow> nat \<Rightarrow> nat \<Rightarrow> nat \<Rightarrow> nat \<Rightarrow> nat \<Rightarrow> 'a list \<Rightarrow> dsp_error + 'a list" where
  "rotate_loop roiVector o1 o2 o3 n idx frame =
     (if idx < n then
        (case pixel_access roiVector o1 o2 o3 idx frame of
           Some e \<Rightarrow> Inl e
         | None \<Rightarrow> rotate_loop roiVector o1 o2 o3 n (idx + 1)
                     (rotate_pixel roiVector o1 o2 o3 idx frame))
      else Inr frame)"
  by pat_completeness auto
termination
  by (relation "measure (\<lambda>(r, o1, o2, o3, n, idx, frame). n - idx)") auto

declare rotate_loop.simps [simp del]

text \<open>The part of the function after the \<open>if (!doTapRotation)\<close> block.\<close>

definition sum_taps :: "'a::plus list \<Rightarrow> 'a list \<Rightarrow> nat \<Rightarrow> nat \<times> nat \<Rightarrow> nat \<Rightarrow> dsp_error + 'a list" where
  "sum_taps roiVector frame freqIdx roiSize numGpixelPhases =
     (let roiImageStride = snd roiSize * numGpixelPhases * fst roiSize in
      if length roiVector < (4 + freqIdx) * roiImageStride + fst roiSize * snd roiSize
      then Inr frame
      else rotate_loop roiVector (freqIdx * roiImageStride) ((2 + freqIdx) * roiImageStride)
             ((4 + freqIdx) * roiImageStride) (fst roiSize * snd roiSize) 0 frame)"

text \<open>The block \<open>if (!doTapRotation)\<close> ends without a \<open>return\<close>: after the copy
  (and only the "buffer mis-sized" case returns) control reaches the summation code.\<close>

definition tapRotation ::
  "'a::plus list \<Rightarrow> 'a list \<Rightarrow> nat \<Rightarrow> nat \<times> nat \<Rightarrow> nat \<Rightarrow> bool \<Rightarrow> dsp_error + 'a list" where
  "tapRotation roiVector frame freqIdx roiSize numGpixelPhases doTapRotation =
     (let roiImageStride = snd roiSize * numGpixelPhases * fst roiSize in
      if \<not> doTapRotation then
        (let roiVectorIdx = freqIdx * roiImageStride in
         if roiVectorIdx + length frame > length roiVector then Inr frame
         else
           (case copy_loop roiVector roiVectorIdx 0 frame of
              Inl e \<Rightarrow> Inl e
            | Inr frame' \<Rightarrow> sum_taps roiVector frame' freqIdx roiSize numGpixelPhases))
      else sum_taps roiVector frame freqIdx roiSize numGpixelPhases)"

text \<open>A one-pixel ROI reduced by the hardware, in a buffer that is larger than the ROI:
  the two images (frequency 0 and 1) are followed by twelve floats the ROI does not
  own.\<close>

definition hardware_roi_in_large_buffer :: "int list" where
  "hardware_roi_in_large_buffer =
     [10, 20, 30,  11, 21, 31,  1, 2, 3,  4, 5, 6,  100, 200, 300,  7, 8, 9]"

section \<open>Range output (raw-to-depth-cpp/RawToDepthCommon.cpp, processWholeFrame_float.cpp)\<close>

text \<open>
  Floats are the rationals they denote. The operations of \<open>getRange\<close> are exact on
  them: comparisons, the doubling of the threshold, the scaling by the power of two
  \<open>RANGE_NETWORK_SCALE\<close>, \<open>roundf\<close>. The conversion \<open>(uint16_t)\<close> of a float is
  defined only when the value fits; otherwise the behaviour is undefined, the result
  \<open>Inl NotRepresentable\<close> of the model. The reads \<open>_fMinMaxMask[idx]\<close> and
  \<open>_fSnr[idx]\<close> are unchecked (the assertions are compiled out in release builds);
  \<open>idx % _size[1]\<close> with a zero width is a division by zero.
\<close>

datatype range_error = DivisionByZero | ReadBeyondVector | NotRepresentable

definition RANGE_NETWORK_SCALE :: rat where "RANGE_NETWORK_SCALE = 1024"
definition RANGE_LIMIT_FRACTION :: rat where "RANGE_LIMIT_FRACTION = f32 (8 / 10)"
definition FLT_MAX :: rat where "FLT_MAX = (2 ^ 24 - 1) * 2 ^ 104"

definition to_uint16 :: "int \<Rightarrow> range_error + 16 word" where
  "to_uint16 v = (if 0 \<le> v \<and> v \<le> 65535 then Inr (word_of_int v) else Inl NotRepresentable)"

text \<open>The index into the pixel mask, computed in \<open>uint32_t\<close>.\<close>

definition pixelMaskIdx_of :: "nat \<times> nat \<Rightarrow> nat \<times> nat \<Rightarrow> nat \<Rightarrow> nat \<Rightarrow> nat \<Rightarrow> nat" where
  "pixelMaskIdx_of sensorFovStart sensorFovStep pixelMaskStride width idx =
     (let pixelMaskStartY = fst sensorFovStart;
          pixelMaskStartX = snd sensorFovStart;
          pixelMaskStepY = fst sensorFovStep;
          pixelMaskStepX = snd sensorFovStep;
          rangeX = idx mod width;
          rangeY = idx div width;
          pixelMaskX = (pixelMaskStartX + rangeX * pixelMaskStepX) mod 2 ^ 32;
          pixelMaskY = (pixelMaskStartY + rangeY * pixelMaskStepY) mod 2 ^ 32
      in (pixelMaskX + pixelMaskStride * pixelMaskY) mod 2 ^ 32)"

text \<open>One iteration of the loop of \<open>RawToDepthCommon::getRange\<close>.\<close>

definition getRange_at ::
  "rat list \<Rightarrow> rat list \<Rightarrow> 16 word list \<Rightarrow> rat list \<Rightarrow> nat \<times> nat \<Rightarrow> nat \<times> nat \<Rightarrow> nat \<Rightarrow>
   nat \<times> nat \<Rightarrow> bool \<Rightarrow> rat \<Rightarrow> rat \<Rightarrow> rat \<Rightarrow> rat \<Rightarrow> nat \<Rightarrow> range_error + 16 word" where
  "getRange_at fRanges fMinMaxMask pixelMaskTable fSnr sensorFovStart sensorFovStep pixelMaskStride
     imSize disableRangeMasking snrThresh rangeOffsetTemperature rangeLimit maxUnambiguousRange idx =
     (if snd imSize = 0 then Inl DivisionByZero
      else if \<not> idx < length fMinMaxMask then Inl ReadBeyondVector
      else if \<not> idx < length fSnr then Inl ReadBeyondVector
      else
        (let iSnrThresh = snrThresh;
             pixelMaskIdx = pixelMaskIdx_of sensorFovStart sensorFovStep pixelMaskStride (snd imSize) idx;
             minMaxThresh = 1 / 2;
             minMaxMask = (fMinMaxMask ! idx > minMaxThresh);
             pixelMask = (if pixelMaskIdx < length pixelMaskTable
                          then pixelMaskTable ! pixelMaskIdx = 0 else False);
             snr = fSnr ! idx;
             iRange = fRanges ! idx;
             iRange' = (if \<not> disableRangeMasking \<and>
                           (minMaxMask \<or> snr < 2 * iSnrThresh \<or> pixelMask \<or> iRange > rangeLimit)
                        then 0 else iRange)
         in to_uint16 (roundf (RANGE_NETWORK_SCALE * iRange'))))"

text \<open>Running the iterations in order; the first failure ends the run.\<close>

fun collect :: "('e + 'a) list \<Rightarrow> 'e + 'a list" where
  "collect [] = Inr []"
| "collect (Inl e # rs) = Inl e"
| "collect (Inr x # rs) = (case collect rs of Inl e \<Rightarrow> Inl e | Inr xs \<Rightarrow> Inr (x # xs))"

definition getRange ::
  "rat list \<Rightarrow> rat list \<Rightarrow> 16 word list \<Rightarrow> rat list \<Rightarrow> nat \<times> nat \<Rightarrow> nat \<times> nat \<Rightarrow> nat \<Rightarrow>
   nat \<times> nat \<Rightarrow> bool \<Rightarrow> rat \<Rightarrow> rat \<Rightarrow> rat \<Rightarrow> rat \<Rightarrow> range_error + 16 word list" where
  "getRange fRanges fMinMaxMask pixelMaskTable fSnr sensorFovStart sensorFovStep pixelMaskStride
     imSize disableRangeMasking snrThresh rangeOffsetTemperature rangeLimit maxUnambiguousRange =
     collect (map (getRange_at fRanges fMinMaxMask pixelMaskTable fSnr sensorFovStart sensorFovStep
                     pixelMaskStride imSize disableRangeMasking snrThresh rangeOffsetTemperature
                     rangeLimit maxUnambiguousRange)
                [0..<length fRanges])"

subsection \<open>The range step of whole-frame processing\<close>

text \<open>\<open>fmod\<close> is exact: \<open>x\<close> minus the multiple of \<open>y\<close> given by the quotient
  truncated towards zero (for \<open>y \<noteq> 0\<close>).\<close>

definition trunc :: "rat \<Rightarrow> int" where
  "trunc q = (if 0 \<le> q then \<lfloor>q\<rfloor> else \<lceil>q\<rceil>)"

definition fmod :: "rat \<Rightarrow> rat \<Rightarrow> rat" where
  "fmod x y = x - y * of_int (trunc (x / y))"

text \<open>The lambda applied to every range in \<open>localProcessFrame\<close>; the subtraction is a
  binary32 operation.\<close>

definition adjust_range :: "rat \<Rightarrow> rat \<Rightarrow> rat \<Rightarrow> rat" where
  "adjust_range maxUnambiguousRange rangeOffsetTemperature range0 =
     (let range1 = f32 (range0 - rangeOffsetTemperature);
          range2 = (if range1 < 0 then 0 else range1)
      in fmod range2 maxUnambiguousRange)"

text \<open>Lines 324 to 343 of \<open>localProcessFrame\<close>: the ranges that leave the
  nearest-neighbour filter are adjusted and handed to \<open>getRange\<close>, whose result is the
  range image of the published \<open>FovSegment\<close>. \<open>mur\<close> is
  \<open>(float_t)info.maxUnambiguousRange\<close>.\<close>

definition published_ranges ::
  "rat list \<Rightarrow> rat list \<Rightarrow> 16 word list \<Rightarrow> rat list \<Rightarrow> nat \<times> nat \<Rightarrow> nat \<times> nat \<Rightarrow> nat \<times> nat \<Rightarrow>
   nat \<times> nat \<Rightarrow> bool \<Rightarrow> rat \<Rightarrow> rat \<Rightarrow> rat \<Rightarrow> rat \<Rightarrow> range_error + 16 word list" where
  "published_ranges fRanges fMinMaxMask pixelMaskTable fSnr fovStart fovStep fovSize imSize
     disableRangeMasking snrThresh rangeOffsetTemperature rangeLimit mur =
     getRange (map (adjust_range mur rangeOffsetTemperature) fRanges) fMinMaxMask pixelMaskTable fSnr
       fovStart fovStep (snd fovSize) imSize disableRangeMasking snrThresh rangeOffsetTemperature
       rangeLimit mur"

text \<open>How the engine derives the maximum unambiguous range and the range limit
  (\<open>RawToDepth.h\<close>, \<open>RawToDepth::realloc\<close>): \<open>_halfc\<close> is a binary32 constant,
  \<open>getMaxUnambiguousRange\<close> divides in \<open>double\<close>, and the limit is the binary32
  product with \<open>RANGE_LIMIT_FRACTION\<close> when the metadata enables it.\<close>

definition halfc :: rat where "halfc = f32 (f32 (1 / 2) * f32 299792498)"

definition getMaxUnambiguousRange :: "rat \<Rightarrow> rat" where
  "getMaxUnambiguousRange gcf = f64 (halfc / gcf)"

definition rangeLimit_of :: "bool \<Rightarrow> rat \<Rightarrow> rat" where
  "rangeLimit_of enableMaxRangeLimit gcf =
     (if enableMaxRangeLimit then f32 (RANGE_LIMIT_FRACTION * f32 (getMaxUnambiguousRange gcf))
      else FLT_MAX)"

text \<open>The decoded range of an output value: 1024 counts per metre.\<close>

definition decoded_range :: "16 word \<Rightarrow> rat" where
  "decoded_range v = of_nat (unat v) / 1024"

text \<open>The frame of one pixel used in the examples: modulation pair (8, 7), whose greatest
  common frequency is 5952381 Hz; no pixel is masked by the min-max filter, the SNR or
  the pixel mask.\<close>

definition mur_87 :: rat where "mur_87 = f32 (getMaxUnambiguousRange 5952381)"

section \<open>Nearest-neighbour filter (raw-to-depth-cpp/NearestNeighbor.cpp)\<close>

text \<open>
  \<open>NearestNeighbor::removeOutliers\<close> filters the range image in place, reading from a
  copy of it. The image is a row-major vector; \<open>imSize\<close> is (height, width). The three
  tables are indexed by the filter level. Vector accesses are unchecked
  (\<open>operator[]\<close>, the assertions being compiled out in release builds), so an access
  past the end is a result of the model. The index arithmetic is on \<open>nat\<close>: once the
  image fits the vector, every index is below the length of the vector.
\<close>

datatype nn_error = NNReadPastEnd | NNWritePastEnd

definition MAX_NEAREST_NEIGHBOR_IDX :: nat where "MAX_NEAREST_NEIGHBOR_IDX = 5"

definition lutNeighborCountTolerance :: "nat list" where
  "lutNeighborCountTolerance = [0, 3, 5, 5, 7, 11]"

definition lutWindowSize :: "nat list" where
  "lutWindowSize = [0, 3, 5, 6, 7, 9]"

definition flutRangeToleranceFrac :: "rat list" where
  "flutRangeToleranceFrac =
     [0, f32 (1 / 16), f32 (1 / 16), f32 (1 / 16), f32 (1 / 16), f32 (1 / 16)]"

text \<open>The test of one window entry: \<open>rangeTol >= fabs(winVal - val)\<close>, the difference
  being a binary32 subtraction.\<close>

definition is_neighbor :: "rat \<Rightarrow> rat \<Rightarrow> rat \<Rightarrow> bool" where
  "is_neighbor val rangeTol winVal \<longleftrightarrow> rangeTol \<ge> \<bar>f32 (winVal - val)\<bar>"

text \<open>The inner loop of \<open>countNeighbors\<close>, over one row of the window.\<close>

function count_row :: "rat \<Rightarrow> rat \<Rightarrow> rat list \<Rightarrow> nat \<Rightarrow> nat \<Rightarrow> nat \<Rightarrow> nn_error + nat" where
  "count_row val rangeTol ranges winIdx winEnd numNeighbors =
     (if winIdx < winEnd then
        (if winIdx < length ranges
         then count_row val rangeTol ranges (winIdx + 1) winEnd
                (numNeighbors + (if is_neighbor val rangeTol (ranges ! winIdx) then 1 else 0))
         else Inl NNReadPastEnd)
      else Inr numNeighbors)"
  by pat_completeness auto
termination
  by (relation "measure (\<lambda>(v, t, r, winIdx, winEnd, n). winEnd - winIdx)") auto

declare count_row.simps [simp del]

text \<open>The outer loop of \<open>countNeighbors\<close>, over the rows of the window.\<close>

function count_rows ::
  "rat \<Rightarrow> rat \<Rightarrow> rat list \<Rightarrow> nat \<Rightarrow> nat \<Rightarrow> nat \<Rightarrow> nat \<Rightarrow> nat \<Rightarrow> nn_error + nat" where
  "count_rows val rangeTol ranges winSize stride rowIdx winStart numNeighbors =
     (if rowIdx < winSize then
        (case count_row val rangeTol ranges winStart (winStart + winSize) numNeighbors of
           Inl e \<Rightarrow> Inl e
         | Inr n \<Rightarrow> count_rows val rangeTol ranges winSize stride (rowIdx + 1) (winStart + stride) n)
      else Inr numNeighbors)"
  by pat_completeness auto
termination
  by (relation "measure (\<lambda>(v, t, r, winSize, s, rowIdx, w, n). winSize - rowIdx)") auto

declare count_rows.simps [simp del]

definition countNeighbors ::
  "rat \<Rightarrow> rat \<Rightarrow> nat \<Rightarrow> rat list \<Rightarrow> nat \<Rightarrow> nat \<Rightarrow> nat \<Rightarrow> nn_error + rat" where
  "countNeighbors val rangeTol minNeighborCount ranges startIdx winSize stride =
     (case count_rows val rangeTol ranges winSize stride 0 startIdx 0 of
        Inl e \<Rightarrow> Inl e
      | Inr numNeighbors \<Rightarrow> Inr (if numNeighbors < minNeighborCount then 0 else val))"

text \<open>The loop over the pixels of one image row, and the loop over the rows.
  \<open>franges\<close> is the copy that is read, \<open>ffilteredRanges\<close> the vector that is
  written.\<close>

function filter_row ::
  "rat list \<Rightarrow> rat \<Rightarrow> nat \<Rightarrow> nat \<Rightarrow> nat \<Rightarrow> nat \<Rightarrow> nat \<Rightarrow> nat \<Rightarrow> nat \<Rightarrow> rat list \<Rightarrow>
   nn_error + rat list" where
  "filter_row franges rangeTolFrac minNeighborCount winSize stride imw xIdx pixIdx winIdx
     ffilteredRanges =
     (if xIdx < imw then
        (if \<not> pixIdx < length franges then Inl NNReadPastEnd
         else
           (let val = franges ! pixIdx;
                rangeTol = f32 (f32 (1 / 1024) + f32 (val * rangeTolFrac))
            in case countNeighbors val rangeTol minNeighborCount franges winIdx winSize stride of
                 Inl e \<Rightarrow> Inl e
               | Inr v \<Rightarrow>
                   (if \<not> pixIdx < length ffilteredRanges then Inl NNWritePastEnd
                    else filter_row franges rangeTolFrac minNeighborCount winSize stride imw
                           (xIdx + 1) (pixIdx + 1) (winIdx + 1) (ffilteredRanges[pixIdx := v]))))
      else Inr ffilteredRanges)"
  by pat_completeness auto
termination
  by (relation "measure (\<lambda>(f, t, m, ws, s, imw, xIdx, p, w, out). imw - xIdx)") auto

declare filter_row.simps [simp del]

function filter_rows ::
  "rat list \<Rightarrow> rat \<Rightarrow> nat \<Rightarrow> nat \<Rightarrow> nat \<Rightarrow> nat \<Rightarrow> nat \<Rightarrow> nat \<Rightarrow> nat \<Rightarrow> nat \<Rightarrow> rat list \<Rightarrow>
   nn_error + rat list" where
  "filter_rows franges rangeTolFrac minNeighborCount winSize stride imw imh yIdx colStart winStart
     ffilteredRanges =
     (if yIdx < imh then
        (case filter_row franges rangeTolFrac minNeighborCount winSize stride imw 0 colStart winStart
                ffilteredRanges of
           Inl e \<Rightarrow> Inl e
         | Inr out \<Rightarrow> filter_rows franges rangeTolFrac minNeighborCount winSize stride imw imh
                        (yIdx + 1) (colStart + stride) (winStart + stride) out)
      else Inr ffilteredRanges)"
  by pat_completeness auto
termination
  by (relation "measure (\<lambda>(f, t, m, ws, s, imw, imh, yIdx, c, w, out). imh - yIdx)") auto

declare filter_rows.simps [simp del]

definition removeOutliers :: "rat list \<Rightarrow> nat \<Rightarrow> nat \<times> nat \<Rightarrow> nn_error + rat list" where
  "removeOutliers ffilteredRanges filterLevel0 imSize =
     (if fst imSize < last lutNeighborCountTolerance \<or> snd imSize < last lutNeighborCountTolerance
      then Inr ffilteredRanges
      else if filterLevel0 = 0 then Inr ffilteredRanges
      else
        (let filterLevel = (if filterLevel0 > MAX_NEAREST_NEIGHBOR_IDX
                            then MAX_NEAREST_NEIGHBOR_IDX else filterLevel0);
             franges = ffilteredRanges;
             winSize = lutWindowSize ! filterLevel;
             halfWin = winSize div 2;
             rangeTolFrac = flutRangeToleranceFrac ! filterLevel;
             minNeighborCount = lutNeighborCountTolerance ! filterLevel;
             imh = fst imSize - 2 * halfWin;
             imw = snd imSize - 2 * halfWin;
             stride = snd imSize;
             colStart = halfWin + stride * halfWin;
             winStart = 0
         in filter_rows franges rangeTolFrac minNeighborCount winSize stride imw imh 0 colStart
              winStart ffilteredRanges))"

subsection \<open>What the filter computes, pixel by pixel\<close>

text \<open>The window of the pixel in row \<open>y\<close> and column \<open>x\<close> is the square of
  \<open>winSize\<close> rows and columns whose top-left entry is \<open>halfWin\<close> rows above and
  \<open>halfWin\<close> columns left of the pixel; \<open>window_matches\<close> counts its entries (the
  pixel itself among them) that pass \<open>is_neighbor\<close>.\<close>

definition window_entries :: "nat \<Rightarrow> nat \<Rightarrow> nat \<Rightarrow> nat list" where
  "window_entries winStart winSize stride =
     concat (map (\<lambda>r. [winStart + r * stride ..< winStart + r * stride + winSize]) [0..<winSize])"

definition window_matches :: "rat list \<Rightarrow> rat \<Rightarrow> rat \<Rightarrow> nat \<Rightarrow> nat \<Rightarrow> nat \<Rightarrow> nat" where
  "window_matches ranges val rangeTol winStart winSize stride =
     length (filter (\<lambda>k. is_neighbor val rangeTol (ranges ! k)) (window_entries winStart winSize stride))"

definition range_tolerance :: "rat \<Rightarrow> rat" where
  "range_tolerance val = f32 (f32 (1 / 1024) + f32 (val * f32 (1 / 16)))"

definition filtered_pixel :: "rat list \<Rightarrow> nat \<Rightarrow> nat \<Rightarrow> nat \<Rightarrow> nat \<Rightarrow> rat" where
  "filtered_pixel ranges minNeighborCount winSize stride pixIdx =
     (let val = ranges ! pixIdx;
          winStart = pixIdx - (winSize div 2 + stride * (winSize div 2))
      in if window_matches ranges val (range_tolerance val) winStart winSize stride < minNeighborCount
         then 0 else val)"

text \<open>The pixels the filter visits: those at least \<open>halfWin\<close> rows and columns from the
  top and left borders, and from the bottom and right borders as far as the row and
  column counts \<open>imh\<close> and \<open>imw\<close> reach.\<close>

definition interior :: "nat \<times> nat \<Rightarrow> nat \<Rightarrow> nat \<Rightarrow> nat \<Rightarrow> bool" where
  "interior imSize winSize y x \<longleftrightarrow>
     winSize div 2 \<le> y \<and> y < fst imSize - winSize div 2 \<and>
     winSize div 2 \<le> x \<and> x < snd imSize - winSize div 2"

definition clamp_level :: "nat \<Rightarrow> nat" where
  "clamp_level filterLevel = min filterLevel MAX_NEAREST_NEIGHBOR_IDX"

subsection \<open>The filter as the specification words it\<close>

text \<open>The tolerance and the comparison of the specification: a window entry matches
  when its range differs from the centre by less than \<open>max(1/1024, range/16)\<close>.\<close>

definition spec_tolerance :: "rat \<Rightarrow> rat" where
  "spec_tolerance val = max (1 / 1024) (val / 16)"

definition spec_matches :: "rat list \<Rightarrow> rat \<Rightarrow> nat \<Rightarrow> nat \<Rightarrow> nat \<Rightarrow> nat" where
  "spec_matches ranges val winStart winSize stride =
     length (filter (\<lambda>k. \<bar>ranges ! k - val\<bar> < spec_tolerance val) (window_entries winStart winSize stride))"

definition spec_pixel :: "rat list \<Rightarrow> nat \<Rightarrow> nat \<Rightarrow> nat \<Rightarrow> nat \<Rightarrow> rat" where
  "spec_pixel ranges minNeighborCount winSize stride pixIdx =
     (let val = ranges ! pixIdx;
          winStart = pixIdx - (winSize div 2 + stride * (winSize div 2))
      in if spec_matches ranges val winStart winSize stride < minNeighborCount then 0 else val)"

text \<open>An image of 11 rows and 11 columns, all 0 except the centre pixel (row 5,
  column 5) with range 16 m and the pixels above and below it with range 17 m.\<close>

definition nn_image :: "rat list" where
  "nn_image = (replicate 121 0)[49 := 17, 60 := 16, 71 := 17]"
section \<open>Per-ROI validation and the FOV state machine\<close>

text \<open>
  The grid-mode engine \<open>RawToDepthV2_float\<close> receives every ROI through
  \<open>processOneRoi\<close> (\<open>processRoi_float.cpp\<close>), which validates the buffer
  (\<open>RawToDepth::validateMetadata\<close>), passes it through the HDR stage (\<open>hdr.cpp\<close>),
  re-initialises the engine on the first ROI of a FOV (\<open>reset\<close>, \<open>realloc\<close>), runs
  the checks of \<open>saveTimestamp\<close> and then hands the ROI to the signal processing.
  \<open>RawToFovs::processRoi\<close> calls \<open>processWholeFrame\<close> after an ROI whenever the
  engine reports that the last ROI of the FOV was received, and \<open>localProcessFrame\<close>
  decides whether a \<open>FovSegment\<close> is handed to the consumer.

  The model keeps the members of the engine that this control path reads or writes. The
  raw and frame buffers are represented by their sizes only, and the signal processing
  that follows \<open>saveTimestamp\<close> and the three gates of \<open>localProcessFrame\<close> is not
  modelled: which \<open>return\<close> of \<open>processOneRoi\<close> is taken, and whether
  \<open>localProcessFrame\<close> reaches its call of \<open>setFovSegment\<close>, are results of the
  model. Assertions are compiled out (release build).
\<close>

subsection \<open>Metadata getters (RtdMetadata.h)\<close>

definition OFS_saturationThreshold :: nat where "OFS_saturationThreshold = 54"

definition ROI_NUM_COLUMNS :: nat where "ROI_NUM_COLUMNS = 640"
definition NUM_GPIXEL_PHASES :: nat where "NUM_GPIXEL_PHASES = 3"
definition IMAGE_WIDTH :: nat where "IMAGE_WIDTH = 640"
definition MAX_IMAGE_HEIGHT :: nat where "MAX_IMAGE_HEIGHT = 480"
definition MD_ROW_SHORTS :: nat where "MD_ROW_SHORTS = IMAGE_WIDTH * NUM_GPIXEL_PHASES"
definition SENSOR_MODE_IMAGE :: "16 word" where "SENSOR_MODE_IMAGE = 2"
definition SENSOR_MODE_SMFD :: "16 word" where "SENSOR_MODE_SMFD = 1"
definition SENSOR_MODE_DMFD :: "16 word" where "SENSOR_MODE_DMFD = 0"
definition SENSOR_MODE_HDR_RETRY :: "16 word" where "SENSOR_MODE_HDR_RETRY = 0x10"
definition SENSOR_MODE_MASK :: "16 word" where "SENSOR_MODE_MASK = 7"
definition START_STOP_FLAG_FIRST_ROI :: "16 word" where "START_STOP_FLAG_FIRST_ROI = 1"
definition START_STOP_FLAG_FRAME_COMPLETED :: "16 word" where "START_STOP_FLAG_FRAME_COMPLETED = 2"
definition RTD_ALG_COMMON_STRIPE_MODE :: "16 word" where "RTD_ALG_COMMON_STRIPE_MODE = 1"
definition RTD_ALG_COMMON_DISABLE_RTD :: "16 word" where "RTD_ALG_COMMON_DISABLE_RTD = 0x800"
definition SATURATION_THRESHOLD :: "16 word" where "SATURATION_THRESHOLD = 4095"

text \<open>The macros \<open>getmd\<close>, \<open>getsmd\<close> and \<open>getmda\<close>: every metadata word carries
  its 12-bit value in bits 4 to 15.\<close>

definition getmd :: "metadata \<Rightarrow> nat \<Rightarrow> 16 word" where
  "getmd md a = drop_bit 4 (md ! a)"

definition getsmd :: "metadata \<Rightarrow> nat \<Rightarrow> nat \<Rightarrow> 16 word" where
  "getsmd md a idx = drop_bit 4 (md ! (PER_FOV_METADATA_OFFSET + PER_FOV_WORDS * idx + a))"

definition getmda :: "metadata \<Rightarrow> nat \<Rightarrow> nat \<Rightarrow> 16 word" where
  "getmda md a idx = drop_bit 4 (md ! (a + idx))"

definition getStripeModeEnabled :: "metadata \<Rightarrow> nat \<Rightarrow> bool" where
  "getStripeModeEnabled md fovIdx \<longleftrightarrow>
     0 \<noteq> (getsmd md PFOFS_rtdAlgorithmCommon fovIdx AND RTD_ALG_COMMON_STRIPE_MODE)"

definition getFrameCompleted :: "metadata \<Rightarrow> nat \<Rightarrow> bool" where
  "getFrameCompleted md fovIdx \<longleftrightarrow>
     getStripeModeEnabled md fovIdx \<or>
     (getmda md OFS_startStopFlags fovIdx AND START_STOP_FLAG_FRAME_COMPLETED) \<noteq> 0"

definition getFirstRoi :: "metadata \<Rightarrow> nat \<Rightarrow> bool" where
  "getFirstRoi md fovIdx \<longleftrightarrow>
     getStripeModeEnabled md fovIdx \<or>
     (getmda md OFS_startStopFlags fovIdx AND START_STOP_FLAG_FIRST_ROI) \<noteq> 0"

definition getNumPermutations :: "metadata \<Rightarrow> nat" where
  "getNumPermutations md = (if getmd md OFS_reduceMode = 0 then 3 else 1)"

definition getSensorMode :: "metadata \<Rightarrow> 16 word" where
  "getSensorMode md = getmd md OFS_sensorMode AND SENSOR_MODE_MASK"

definition getNumModulationFrequencies :: "metadata \<Rightarrow> nat" where
  "getNumModulationFrequencies md =
     (if getSensorMode md = SENSOR_MODE_IMAGE then 0
      else if getSensorMode md = SENSOR_MODE_SMFD then 1
      else 2)"

definition getRoiStartRow :: "metadata \<Rightarrow> nat" where
  "getRoiStartRow md = unat (getmd md OFS_roiStartRow)"

definition getRoiNumRows :: "metadata \<Rightarrow> nat" where
  "getRoiNumRows md = unat (getmd md OFS_roiNumRows)"

definition getF0ModulationIndex :: "metadata \<Rightarrow> nat" where
  "getF0ModulationIndex md = unat (getmd md OFS_f0ModulationIndex)"

definition getF1ModulationIndex :: "metadata \<Rightarrow> nat" where
  "getF1ModulationIndex md = unat (getmd md OFS_f1ModulationIndex)"

definition getBinModeX :: "metadata \<Rightarrow> nat \<Rightarrow> nat" where
  "getBinModeX md fovIdx = unat (getsmd md PFOFS_binMode fovIdx)"

definition getBinningX :: "metadata \<Rightarrow> nat \<Rightarrow> nat" where
  "getBinningX md fovIdx = (if getBinModeX md fovIdx = 0 then 1 else getBinModeX md fovIdx)"

definition getBinningY :: "metadata \<Rightarrow> nat \<Rightarrow> nat" where
  "getBinningY md fovIdx = (if getBinModeX md fovIdx = 0 then 1 else getBinModeX md fovIdx)"

definition getFovStartRow :: "metadata \<Rightarrow> nat \<Rightarrow> nat" where
  "getFovStartRow md fovIdx = unat (getsmd md PFOFS_fovRowStart fovIdx)"

definition getFovNumRows :: "metadata \<Rightarrow> nat \<Rightarrow> nat" where
  "getFovNumRows md fovIdx = unat (getsmd md PFOFS_fovNumRows fovIdx)"

definition getFovNumRois :: "metadata \<Rightarrow> nat \<Rightarrow> nat" where
  "getFovNumRois md fovIdx =
     (if getStripeModeEnabled md fovIdx then 1 else unat (getsmd md PFOFS_fovNumRois fovIdx))"

definition getFullImageWidth :: "metadata \<Rightarrow> nat \<Rightarrow> nat" where
  "getFullImageWidth md fovIdx = IMAGE_WIDTH div getBinningX md fovIdx"

definition getFullImageHeight :: "metadata \<Rightarrow> nat \<Rightarrow> nat" where
  "getFullImageHeight md fovIdx = unat (getsmd md PFOFS_fovNumRows fovIdx) div getBinningY md fovIdx"

definition getDisableRtd :: "metadata \<Rightarrow> nat \<Rightarrow> bool" where
  "getDisableRtd md fovIdx \<longleftrightarrow>
     (getsmd md PFOFS_rtdAlgorithmCommon fovIdx AND RTD_ALG_COMMON_DISABLE_RTD) \<noteq> 0"

definition wasPreviousRoiSaturated :: "metadata \<Rightarrow> bool" where
  "wasPreviousRoiSaturated md \<longleftrightarrow> 0 \<noteq> (getmd md OFS_sensorMode AND SENSOR_MODE_HDR_RETRY)"

definition isHdrDisabled :: "metadata \<Rightarrow> bool" where
  "isHdrDisabled md \<longleftrightarrow> SATURATION_THRESHOLD = getmd md OFS_saturationThreshold"

definition getScanTableTag :: "metadata \<Rightarrow> nat" where
  "getScanTableTag md = unat (getmd md OFS_random_scan_table_tag)"

definition getRandomFovTag :: "metadata \<Rightarrow> nat \<Rightarrow> nat" where
  "getRandomFovTag md fovIdx = unat (getsmd md PFOFS_randomFovTag fovIdx)"

text \<open>\<open>getTimestamp\<close>: five 12-bit fields, a value below \<open>2^60\<close>.\<close>

definition getTimestamp :: "metadata \<Rightarrow> nat" where
  "getTimestamp md =
     unat (getmd md OFS_timestamp0) + unat (getmd md OFS_timestamp1) * 2 ^ 12 +
     unat (getmd md OFS_timestamp2) * 2 ^ 24 + unat (getmd md OFS_timestamp3) * 2 ^ 36 +
     unat (getmd md OFS_timestamp4) * 2 ^ 48"

subsection \<open>The state of the engine\<close>

text \<open>The HDR stage keeps two metadata rows and two ROI buffers (their size only is
  modelled; \<open>None\<close> is the empty vector of buffers).\<close>

record hdr =
  hdr_previousRoiIdx :: nat
  hdr_nextRoiIdx :: nat
  hdr_rois :: "nat option"
  hdr_md :: "metadata list"
  hdr_previousRoiWasCorrected :: bool
  hdr_skipThis :: bool

text \<open>The members of \<open>RawToDepth\<close> and \<open>RawToDepthV2_float\<close>; a field
  \<open>rtd_x\<close> is the member \<open>_x\<close>. \<open>_gcf\<close> and \<open>_fs\<close> are binary32 values.
  The buffers \<open>_fRawFrames\<close>, \<open>_activeRows\<close> and \<open>_roiIndexFrames\<close> (one
  for each ping-pong index) and \<open>_fovSnrV2\<close> are represented by their sizes;
  \<open>None\<close> is an empty \<open>_fRawFrames[i]\<close>.\<close>

record rtd =
  rtd_fovIdx :: nat
  rtd_hdr :: hdr
  rtd_veryFirstRoiReceived :: bool
  rtd_prevRoiWasLast :: bool
  rtd_incompleteFov :: bool
  rtd_disableRtd :: bool
  rtd_gcf :: rat
  rtd_fs :: "rat \<times> rat"
  rtd_size :: "nat \<times> nat"
  rtd_binning :: "nat \<times> nat"
  rtd_sensorFovStart :: "nat \<times> nat"
  rtd_sensorFovSize :: "nat \<times> nat"
  rtd_sensorFovStep :: "nat \<times> nat"
  rtd_expectedNumRois :: nat
  rtd_expectedScanTableTag :: nat
  rtd_expectedFovTag :: nat
  rtd_fovStartRow :: nat
  rtd_currentRoiIdx :: int
  rtd_timestamps :: "nat list"
  rtd_roiStartRows :: "nat list"
  rtd_fRawFrames :: "nat option \<times> nat option"
  rtd_activeRows :: "nat \<times> nat"
  rtd_roiIndexFrames :: "nat \<times> nat"
  rtd_fovSnrV2 :: nat
  rtd_rawPingOrPong :: nat

datatype rtd_error = BufferReadPastEnd | TableIndexOutOfBounds

subsection \<open>RawToDepth::validateMetadata\<close>

text \<open>\<open>numBytes\<close> is a \<open>uint32_t\<close>; the subtraction of the metadata row wraps. The
  product of \<open>chkBufDataOnly\<close> is computed in \<open>size_t\<close> and stored in a
  \<open>uint32_t\<close>. The result of \<open>chkBufDataWithHeader\<close> is not used by the caller;
  \<open>dumpetyDump\<close> writes a file and leaves the engine unchanged.\<close>

definition chkBufMetadata :: "nat \<Rightarrow> bool" where
  "chkBufMetadata numBytes \<longleftrightarrow> \<not> numBytes < SIZEOF_Metadata_t"

definition expectedBytes :: "metadata \<Rightarrow> nat" where
  "expectedBytes mdat =
     (2 * getRoiNumRows mdat * ROI_NUM_COLUMNS * NUM_GPIXEL_PHASES *
      getNumModulationFrequencies mdat * getNumPermutations mdat) mod 2 ^ 32"

definition chkBufDataOnly :: "metadata \<Rightarrow> nat \<Rightarrow> bool" where
  "chkBufDataOnly mdat numBytesImagesOnly \<longleftrightarrow> \<not> expectedBytes mdat > numBytesImagesOnly"

definition validateMetadataValues :: "metadata \<Rightarrow> bool" where
  "validateMetadataValues mdat \<longleftrightarrow>
     (if \<not> getSensorMode mdat = SENSOR_MODE_DMFD then False
      else if \<not> getNumModulationFrequencies mdat = 2 then False
      else if \<not> int (getF0ModulationIndex mdat) - int (getF1ModulationIndex mdat) = 1 then False
      else True)"

definition validateMetadata :: "rtd \<Rightarrow> metadata \<Rightarrow> nat \<Rightarrow> bool" where
  "validateMetadata this roi numBytes \<longleftrightarrow>
     (if \<not> chkBufMetadata numBytes then False
      else
        (let rowShorts = ROI_NUM_COLUMNS * NUM_GPIXEL_PHASES;
             roiBytes = (numBytes + 2 ^ 32 - rowShorts * 2) mod 2 ^ 32
         in if \<not> chkBufDataOnly roi roiBytes then False
            else if \<not> validateMetadataValues roi then False
            else if \<not> rtd_veryFirstRoiReceived this \<and> \<not> getFirstRoi roi (rtd_fovIdx this) then False
            else if \<not> rtd_veryFirstRoiReceived this \<and> wasPreviousRoiSaturated roi then False
            else True))"

subsection \<open>hdr::submit\<close>

text \<open>Every branch of \<open>submit\<close> reads the \<open>roiShorts\<close> data words that follow the
  metadata row, and the metadata row itself, from the buffer; \<open>roi\<close> is the list of
  the words the buffer holds. \<open>MAKE_VECTOR2\<close> reports a change when the vector of
  buffers is empty or the size differs.\<close>

definition hdr_realloc :: "hdr \<Rightarrow> nat \<Rightarrow> hdr" where
  "hdr_realloc h roiShorts =
     (let changed = (hdr_rois h \<noteq> Some roiShorts) \<or> hdr_md h = [];
          h1 = h\<lparr>hdr_rois := Some roiShorts,
                 hdr_md := (if hdr_md h = []
                            then [replicate (ROI_NUM_COLUMNS * NUM_GPIXEL_PHASES) 0,
                                  replicate (ROI_NUM_COLUMNS * NUM_GPIXEL_PHASES) 0]
                            else hdr_md h)\<rparr>
      in if \<not> changed then h1
         else h1\<lparr>hdr_previousRoiWasCorrected := False, hdr_skipThis := True\<rparr>)"

definition hdr_submit :: "hdr \<Rightarrow> metadata \<Rightarrow> nat \<Rightarrow> bool \<Rightarrow> rtd_error + hdr" where
  "hdr_submit h roiWithHeader roiShortsWithHeader startup =
     (let rowShorts = ROI_NUM_COLUMNS * NUM_GPIXEL_PHASES;
          roiShorts = (roiShortsWithHeader + 2 ^ 32 - rowShorts) mod 2 ^ 32;
          h1 = (hdr_realloc h roiShorts)\<lparr>hdr_skipThis := False\<rparr>;
          header = take rowShorts roiWithHeader
      in if length roiWithHeader < rowShorts + roiShorts then Inl BufferReadPastEnd
         else if isHdrDisabled roiWithHeader then
           Inr (h1\<lparr>hdr_skipThis := False, hdr_previousRoiWasCorrected := False,
                    hdr_md := (hdr_md h1)[hdr_nextRoiIdx h1 := header]\<rparr>)
         else if startup \<or> hdr_previousRoiWasCorrected h1 then
           Inr (h1\<lparr>hdr_skipThis := True, hdr_previousRoiWasCorrected := False,
                    hdr_md := (hdr_md h1)[hdr_previousRoiIdx h1 := header,
                                          hdr_nextRoiIdx h1 := header]\<rparr>)
         else if \<not> wasPreviousRoiSaturated roiWithHeader then
           (let p = (if hdr_previousRoiIdx h1 = 0 then 1 else 0);
                n = (if hdr_nextRoiIdx h1 = 0 then 1 else 0)
            in Inr (h1\<lparr>hdr_skipThis := False, hdr_previousRoiWasCorrected := False,
                        hdr_previousRoiIdx := p, hdr_nextRoiIdx := n,
                        hdr_md := (hdr_md h1)[p := header]\<rparr>))
         else
           Inr (h1\<lparr>hdr_md := (hdr_md h1)[hdr_nextRoiIdx h1 := hdr_md h1 ! hdr_previousRoiIdx h1],
                    hdr_skipThis := False, hdr_previousRoiWasCorrected := True\<rparr>))"

subsection \<open>reset and realloc\<close>

text \<open>\<open>MAKE_VECTOR\<close> on \<open>_timestamps\<close>: \<open>std::vector::resize\<close>.\<close>

definition resize_vec :: "nat \<Rightarrow> nat list \<Rightarrow> nat list" where
  "resize_vec n xs = take n xs @ replicate (n - length xs) 0"

text \<open>\<open>RawToDepth::bufferSizesChanged\<close>. The operands of \<open>||\<close> are evaluated in
  order until one is true; the table reads of the later operands are unchecked.\<close>

definition bufferSizesChanged_base :: "rtd \<Rightarrow> metadata \<Rightarrow> rtd_error + bool" where
  "bufferSizesChanged_base this mdat =
     (let i = rtd_fovIdx this;
          f0 = getF0ModulationIndex mdat;
          f1 = getF1ModulationIndex mdat
      in if getFullImageHeight mdat i \<noteq> fst (rtd_size this) \<or>
            getFullImageWidth mdat i \<noteq> snd (rtd_size this) \<or>
            getBinningY mdat i \<noteq> fst (rtd_binning this) \<or>
            getBinningX mdat i \<noteq> snd (rtd_binning this) \<or>
            getFovStartRow mdat i \<noteq> fst (rtd_sensorFovStart this) \<or>
            0 \<noteq> snd (rtd_sensorFovStart this) \<or>
            getFovNumRows mdat i \<noteq> fst (rtd_sensorFovSize this) \<or>
            ROI_NUM_COLUMNS \<noteq> snd (rtd_sensorFovSize this) \<or>
            getFovNumRois mdat i \<noteq> length (rtd_timestamps this)
         then Inr True
         else if \<not> f0 < length IDX_TO_FRQ_LUT then Inl TableIndexOutOfBounds
         else if fst (rtd_fs this) \<noteq> IDX_TO_FRQ_LUT ! f0 then Inr True
         else if \<not> f1 < length IDX_TO_FRQ_LUT then Inl TableIndexOutOfBounds
         else if snd (rtd_fs this) \<noteq> IDX_TO_FRQ_LUT ! f1 then Inr True
         else
           (case getGcf f0 f1 of
              Inl e \<Rightarrow> Inl TableIndexOutOfBounds
            | Inr (g, logged) \<Rightarrow>
                Inr (rtd_gcf this \<noteq> f32 (of_int g) \<or>
                     rtd_fovStartRow this \<noteq> getFovStartRow mdat i)))"

text \<open>\<open>RawToDepthV2_float::bufferSizesChanged\<close>.\<close>

definition bufferSizesChanged :: "rtd \<Rightarrow> metadata \<Rightarrow> rtd_error + bool" where
  "bufferSizesChanged this mdat =
     (case bufferSizesChanged_base this mdat of
        Inl e \<Rightarrow> Inl e
      | Inr True \<Rightarrow> Inr True
      | Inr False \<Rightarrow>
          Inr (fst (rtd_activeRows this) \<noteq> getFovNumRows mdat (rtd_fovIdx this) \<or>
               snd (rtd_activeRows this) \<noteq> getFovNumRows mdat (rtd_fovIdx this) \<or>
               fst (rtd_roiIndexFrames this) \<noteq> MAX_IMAGE_HEIGHT * IMAGE_WIDTH \<or>
               snd (rtd_roiIndexFrames this) \<noteq> MAX_IMAGE_HEIGHT * IMAGE_WIDTH \<or>
               rtd_fovSnrV2 this \<noteq> ROI_NUM_COLUMNS * getFovNumRows mdat (rtd_fovIdx this)))"

text \<open>\<open>RawToDepth::realloc\<close>: with a zero GCF the function returns after it has
  cleared \<open>_incompleteFov\<close>.\<close>

definition realloc_base :: "rtd \<Rightarrow> metadata \<Rightarrow> rtd_error + rtd" where
  "realloc_base this mdat =
     (let i = rtd_fovIdx this;
          s1 = this\<lparr>rtd_disableRtd := getDisableRtd mdat i, rtd_incompleteFov := False\<rparr>
      in case getGcf (getF0ModulationIndex mdat) (getF1ModulationIndex mdat) of
           Inl e \<Rightarrow> Inl TableIndexOutOfBounds
         | Inr (g, logged) \<Rightarrow>
             (let s2 = s1\<lparr>rtd_gcf := f32 (of_int g)\<rparr>
              in if 0 = rtd_gcf s2 then Inr s2
                 else Inr (s2\<lparr>
                   rtd_size := (getFullImageHeight mdat i, getFullImageWidth mdat i),
                   rtd_binning := (getBinningY mdat i, getBinningX mdat i),
                   rtd_sensorFovStart := (getFovStartRow mdat i, 0),
                   rtd_sensorFovSize := (getFovNumRows mdat i, ROI_NUM_COLUMNS),
                   rtd_sensorFovStep := (getBinningY mdat i, getBinningX mdat i),
                   rtd_expectedNumRois := getFovNumRois mdat i,
                   rtd_expectedScanTableTag := getScanTableTag mdat,
                   rtd_expectedFovTag := getRandomFovTag mdat i,
                   rtd_fs := (IDX_TO_FRQ_LUT ! getF0ModulationIndex mdat,
                              IDX_TO_FRQ_LUT ! getF1ModulationIndex mdat),
                   rtd_fovStartRow := getFovStartRow mdat i,
                   rtd_currentRoiIdx := - 1,
                   rtd_timestamps := resize_vec (getFovNumRois mdat i) (rtd_timestamps s2),
                   rtd_roiStartRows := []\<rparr>)))"

text \<open>\<open>RawToDepthV2_float::realloc\<close>: the frame buffers are resized;
  \<open>bufferSizesChanged\<close> is called when no size changed.\<close>

definition realloc_v2 :: "rtd \<Rightarrow> metadata \<Rightarrow> rtd_error + rtd" where
  "realloc_v2 this mdat =
     (let rows = getFovNumRows mdat (rtd_fovIdx this);
          s1 = this\<lparr>rtd_fRawFrames := (Some (NUM_GPIXEL_PHASES * ROI_NUM_COLUMNS * rows),
                                        Some (NUM_GPIXEL_PHASES * ROI_NUM_COLUMNS * rows)),
                    rtd_activeRows := (rows, rows),
                    rtd_roiIndexFrames := (MAX_IMAGE_HEIGHT * IMAGE_WIDTH, MAX_IMAGE_HEIGHT * IMAGE_WIDTH),
                    rtd_fovSnrV2 := ROI_NUM_COLUMNS * rows\<rparr>;
          changed = (rtd_fRawFrames this \<noteq> rtd_fRawFrames s1 \<or>
                     rtd_activeRows this \<noteq> rtd_activeRows s1 \<or>
                     rtd_roiIndexFrames this \<noteq> rtd_roiIndexFrames s1 \<or>
                     rtd_fovSnrV2 this \<noteq> rtd_fovSnrV2 s1)
      in if changed then Inr s1
         else (case bufferSizesChanged s1 mdat of Inl e \<Rightarrow> Inl e | Inr c \<Rightarrow> Inr s1))"

text \<open>\<open>RawToDepthV2_float::reset\<close>: \<open>RawToDepth::reset\<close> (which calls
  \<open>RawToDepth::realloc\<close>), then \<open>RawToDepthV2_float::realloc\<close>.\<close>

definition reset :: "rtd \<Rightarrow> metadata \<Rightarrow> rtd_error + rtd" where
  "reset this mdat =
     (case realloc_base (this\<lparr>rtd_prevRoiWasLast := False\<rparr>) mdat of
        Inl e \<Rightarrow> Inl e
      | Inr s \<Rightarrow> realloc_v2 s mdat)"

subsection \<open>saveTimestamp\<close>

text \<open>The macro \<open>RETURN_CONDITION\<close> sets \<open>_incompleteFov\<close> and returns
  \<open>false\<close>. \<open>_currentRoiIdx\<close> is an \<open>int32_t\<close> compared with a \<open>size_t\<close>: a
  negative value compares as a large one.\<close>

definition RETURN_CONDITION :: "rtd \<Rightarrow> rtd_error + bool \<times> rtd" where
  "RETURN_CONDITION this = Inr (False, this\<lparr>rtd_incompleteFov := True\<rparr>)"

definition idx_ge_size :: "int \<Rightarrow> nat \<Rightarrow> bool" where
  "idx_ge_size idx n \<longleftrightarrow> idx < 0 \<or> n \<le> nat idx"

definition saveTimestamp_base :: "rtd \<Rightarrow> metadata \<Rightarrow> rtd_error + bool \<times> rtd" where
  "saveTimestamp_base this mdat =
     (let s1 = this\<lparr>rtd_prevRoiWasLast := getFrameCompleted mdat (rtd_fovIdx this)\<rparr>
      in if getDisableRtd mdat (rtd_fovIdx s1) then RETURN_CONDITION s1
         else
           (let s2 = s1\<lparr>rtd_currentRoiIdx := rtd_currentRoiIdx s1 + 1\<rparr>
            in if idx_ge_size (rtd_currentRoiIdx s2) (length (rtd_timestamps s2))
               then RETURN_CONDITION s2
               else Inr (True,
                 s2\<lparr>rtd_timestamps :=
                      (rtd_timestamps s2)[nat (rtd_currentRoiIdx s2) := getTimestamp mdat]\<rparr>)))"

definition saveTimestamp :: "rtd \<Rightarrow> metadata \<Rightarrow> rtd_error + bool \<times> rtd" where
  "saveTimestamp this mdat =
     (case saveTimestamp_base this mdat of
        Inl e \<Rightarrow> Inl e
      | Inr (False, s) \<Rightarrow> Inr (False, s)
      | Inr (True, s) \<Rightarrow>
          (let i = rtd_fovIdx s in
           if getScanTableTag mdat \<noteq> rtd_expectedScanTableTag s then RETURN_CONDITION s
           else if getRandomFovTag mdat i \<noteq> rtd_expectedFovTag s then RETURN_CONDITION s
           else if getFovNumRois mdat i \<noteq> rtd_expectedNumRois s \<or>
                   rtd_sensorFovStart s \<noteq> (getFovStartRow mdat i, 0) \<or>
                   rtd_sensorFovSize s \<noteq> (getFovNumRows mdat i, ROI_NUM_COLUMNS) \<or>
                   rtd_sensorFovStep s \<noteq> (getBinningY mdat i, getBinningX mdat i)
                then RETURN_CONDITION s
           else
             (case bufferSizesChanged s mdat of
                Inl e \<Rightarrow> Inl e
              | Inr True \<Rightarrow> RETURN_CONDITION s
              | Inr False \<Rightarrow>
                  if int (getRoiStartRow mdat) - int (getFovStartRow mdat i) + int (getRoiNumRows mdat)
                       > int (getFovNumRows mdat i)
                  then RETURN_CONDITION s
                  else if rtd_fovStartRow s \<noteq> getFovStartRow mdat i then RETURN_CONDITION s
                  else if getRoiStartRow mdat \<notin> set (rtd_roiStartRows s) \<and>
                          length (rtd_roiStartRows s) \<ge> getFovNumRows mdat i
                       then RETURN_CONDITION s
                  else Inr (True,
                    if getRoiStartRow mdat \<notin> set (rtd_roiStartRows s)
                    then s\<lparr>rtd_roiStartRows := rtd_roiStartRows s @ [getRoiStartRow mdat]\<rparr>
                    else s))))"

subsection \<open>processOneRoi\<close>

text \<open>The \<open>return\<close> statements of \<open>processOneRoi\<close>, in the order of the source; the
  last one is the end of the function, reached after the signal processing of the ROI,
  which begins by sizing the buffers of the current ping-pong index. \<open>getMetadata()\<close>
  copies the metadata block out of the row kept by the HDR stage; the getters read the
  same words from the row itself.\<close>

datatype roi_exit = ExitNoBuffer | ExitInvalidMetadata | ExitHdrLatency | ExitSaveTimestamp | ExitProcessed

definition processOneRoi :: "rtd \<Rightarrow> metadata \<Rightarrow> nat \<Rightarrow> rtd_error + roi_exit \<times> rtd" where
  "processOneRoi inst roi numBytes =
     (if numBytes = 0 then Inr (ExitNoBuffer, inst)
      else if \<not> validateMetadata inst roi numBytes then Inr (ExitInvalidMetadata, inst)
      else
        (case hdr_submit (rtd_hdr inst) roi (numBytes div 2) (\<not> rtd_veryFirstRoiReceived inst) of
           Inl e \<Rightarrow> Inl e
         | Inr h \<Rightarrow>
             (let mdat = hdr_md h ! hdr_nextRoiIdx h;
                  s1 = inst\<lparr>rtd_hdr := h, rtd_veryFirstRoiReceived := True\<rparr>
              in case (if getFirstRoi mdat (rtd_fovIdx s1) then reset s1 mdat else Inr s1) of
                   Inl e \<Rightarrow> Inl e
                 | Inr s2 \<Rightarrow>
                     if hdr_skipThis (rtd_hdr s2) then Inr (ExitHdrLatency, s2)
                     else
                       (case saveTimestamp s2 mdat of
                          Inl e \<Rightarrow> Inl e
                        | Inr (False, s3) \<Rightarrow> Inr (ExitSaveTimestamp, s3)
                        | Inr (True, s3) \<Rightarrow>
                            (let rows = getFovNumRows mdat (rtd_fovIdx s3);
                                 n = Some (NUM_GPIXEL_PHASES * rows * ROI_NUM_COLUMNS)
                             in Inr (ExitProcessed,
                                  if rtd_rawPingOrPong s3 = 0
                                  then s3\<lparr>rtd_fRawFrames := (n, snd (rtd_fRawFrames s3)),
                                          rtd_activeRows := (rows, snd (rtd_activeRows s3))\<rparr>
                                  else s3\<lparr>rtd_fRawFrames := (fst (rtd_fRawFrames s3), n),
                                          rtd_activeRows := (fst (rtd_activeRows s3), rows)\<rparr>))))))"

subsection \<open>Finalisation\<close>

text \<open>\<open>localProcessFrame\<close> returns before any processing when the engine is disabled,
  the FOV is incomplete, or the count of ROIs does not match; otherwise it ends with its
  call of \<open>setFovSegment\<close>. \<open>publishes\<close> says that the three gates are passed, for the
  state copied by \<open>processWholeFrame\<close>.\<close>

definition publishes :: "rtd \<Rightarrow> bool" where
  "publishes this \<longleftrightarrow>
     (if rtd_disableRtd this then False
      else if rtd_incompleteFov this then False
      else if int (rtd_expectedNumRois this) \<noteq> rtd_currentRoiIdx this + 1 \<or> \<not> rtd_prevRoiWasLast this
           then False
      else True)"

text \<open>\<open>RawToFovs::processRoi\<close> for one active FOV slot that is in grid mode: the ROI
  is processed, and \<open>processWholeFrame\<close> (which flips the ping-pong index) runs when
  \<open>lastRoiReceived()\<close> holds. The result says which exit the ROI took and whether a
  \<open>FovSegment\<close> was published.\<close>

definition fov_step :: "rtd \<Rightarrow> metadata \<Rightarrow> nat \<Rightarrow> rtd_error + (roi_exit \<times> bool) \<times> rtd" where
  "fov_step this roi numBytes =
     (case processOneRoi this roi numBytes of
        Inl e \<Rightarrow> Inl e
      | Inr (x, s) \<Rightarrow>
          if rtd_prevRoiWasLast s
          then Inr ((x, publishes s), s\<lparr>rtd_rawPingOrPong := (if rtd_rawPingOrPong s = 0 then 1 else 0)\<rparr>)
          else Inr ((x, False), s))"

text \<open>A sequence of ROIs delivered to the slot.\<close>

fun fov_run :: "rtd \<Rightarrow> (metadata \<times> nat) list \<Rightarrow> rtd_error + (roi_exit \<times> bool) list \<times> rtd" where
  "fov_run this [] = Inr ([], this)"
| "fov_run this ((roi, numBytes) # rois) =
     (case fov_step this roi numBytes of
        Inl e \<Rightarrow> Inl e
      | Inr (r, s) \<Rightarrow>
          (case fov_run s rois of Inl e \<Rightarrow> Inl e | Inr (rs, s') \<Rightarrow> Inr (r # rs, s')))"

subsection \<open>An example stream\<close>

text \<open>An ROI for FOV slot 0 in grid mode: two rows reduced by the FPGA (\<open>reduceMode\<close>
  1, so one permutation), HDR disabled (saturation threshold \<open>0xfff\<close>), no binning; the
  FOV has six rows from sensor row 0 and is made of three ROIs. The metadata row of 1920
  words is followed by the 7680 words of raw data, so the buffer has 19200 bytes. The
  parameters are the two modulation indices, the first row of the ROI, the start-stop
  flags of slot 0, the scan-table tag and the random FOV tag of slot 0.\<close>

definition grid_roi ::
  "16 word \<Rightarrow> 16 word \<Rightarrow> 16 word \<Rightarrow> 16 word \<Rightarrow> 16 word \<Rightarrow> 16 word \<Rightarrow> metadata" where
  "grid_roi f0 f1 roiStartRow startStopFlags scanTableTag fovTag =
     (replicate 1920 0)
       [OFS_roiStartRow := push_bit 4 roiStartRow,
        OFS_roiNumRows := push_bit 4 2,
        OFS_f0ModulationIndex := push_bit 4 f0,
        OFS_f1ModulationIndex := push_bit 4 f1,
        OFS_startStopFlags := push_bit 4 startStopFlags,
        OFS_reduceMode := push_bit 4 1,
        OFS_saturationThreshold := push_bit 4 0xfff,
        OFS_random_scan_table_tag := push_bit 4 scanTableTag,
        PER_FOV_METADATA_OFFSET + PFOFS_binMode := push_bit 4 1,
        PER_FOV_METADATA_OFFSET + PFOFS_fovNumRows := push_bit 4 6,
        PER_FOV_METADATA_OFFSET + PFOFS_fovNumRois := push_bit 4 3,
        PER_FOV_METADATA_OFFSET + PFOFS_randomFovTag := push_bit 4 fovTag]
     @ replicate 7680 0"

definition grid_roi_bytes :: nat where "grid_roi_bytes = 19200"

text \<open>An engine for slot 0 that has not yet received an ROI; its geometry is that of the
  default metadata (one ROI of 480 rows, modulation indices 8 and 7).\<close>

definition rtd_slot0 :: rtd where
  "rtd_slot0 =
     \<lparr>rtd_fovIdx = 0,
      rtd_hdr = \<lparr>hdr_previousRoiIdx = 0, hdr_nextRoiIdx = 1, hdr_rois = None, hdr_md = [],
                 hdr_previousRoiWasCorrected = False, hdr_skipThis = False\<rparr>,
      rtd_veryFirstRoiReceived = False,
      rtd_prevRoiWasLast = False,
      rtd_incompleteFov = False,
      rtd_disableRtd = False,
      rtd_gcf = 5952381,
      rtd_fs = (41666668, 47619048),
      rtd_size = (480, 640),
      rtd_binning = (1, 1),
      rtd_sensorFovStart = (0, 0),
      rtd_sensorFovSize = (480, 640),
      rtd_sensorFovStep = (1, 1),
      rtd_expectedNumRois = 1,
      rtd_expectedScanTableTag = 0,
      rtd_expectedFovTag = 0,
      rtd_fovStartRow = 0,
      rtd_currentRoiIdx = - 1,
      rtd_timestamps = [0],
      rtd_roiStartRows = [],
      rtd_fRawFrames = (Some 921600, Some 921600),
      rtd_activeRows = (480, 480),
      rtd_roiIndexFrames = (307200, 307200),
      rtd_fovSnrV2 = 307200,
      rtd_rawPingOrPong = 0\<rparr>"
section \<open>Theorems: FloatVectorPool\<close>

lemma find_loop_spec:
  assumes "length (vectors p) = length (inUse p)"
  shows "(\<exists>i. find_loop p sz idx = Inr (int i) \<and> idx \<le> i \<and> reusable p sz i \<and>
              (\<forall>j. idx \<le> j \<and> j < i \<longrightarrow> \<not> reusable p sz j))
       \<or> (find_loop p sz idx = Inr (- 1) \<and> (\<forall>j. idx \<le> j \<longrightarrow> \<not> reusable p sz j))"
  using assms
proof (induction p sz idx rule: find_loop.induct)
  case (1 p sz idx)
  show ?case
  proof (cases "idx < length (vectors p)")
    case False
    then show ?thesis
      by (subst find_loop.simps, subst find_loop.simps) (auto simp: reusable_def)
  next
    case lt: True
    show ?thesis
    proof (cases "reusable p sz idx")
      case True
      then have "find_loop p sz idx = Inr (int idx)"
        using lt "1.prems" by (subst find_loop.simps) (auto simp: reusable_def)
      with True show ?thesis by auto
    next
      case False
      then have step: "find_loop p sz idx = find_loop p sz (idx + 1)"
        using lt "1.prems" by (subst find_loop.simps) (auto simp: reusable_def)
      have ih: "(\<exists>i. find_loop p sz (idx + 1) = Inr (int i) \<and> idx + 1 \<le> i \<and> reusable p sz i \<and>
              (\<forall>j. idx + 1 \<le> j \<and> j < i \<longrightarrow> \<not> reusable p sz j))
        \<or> (find_loop p sz (idx + 1) = Inr (- 1) \<and> (\<forall>j. idx + 1 \<le> j \<longrightarrow> \<not> reusable p sz j))"
      proof (cases "length (snd (vectors p ! idx)) = sz")
        case True
        with False lt "1.prems" have "inUse p ! idx" by (auto simp: reusable_def)
        with "1.IH"(1) [OF lt True] lt "1.prems" show ?thesis by simp
      next
        case False
        with "1.IH"(2) [OF lt False] "1.prems" show ?thesis by simp
      qed
      have nb: "\<And>j. idx \<le> j \<Longrightarrow> j < idx + 1 \<Longrightarrow> \<not> reusable p sz j"
        using False by (metis Suc_eq_plus1 le_antisym less_Suc_eq_le)
      from ih show ?thesis
      proof
        assume "\<exists>i. find_loop p sz (idx + 1) = Inr (int i) \<and> idx + 1 \<le> i \<and> reusable p sz i \<and>
              (\<forall>j. idx + 1 \<le> j \<and> j < i \<longrightarrow> \<not> reusable p sz j)"
        then obtain i where i: "find_loop p sz (idx + 1) = Inr (int i)" "idx + 1 \<le> i" "reusable p sz i"
              "\<forall>j. idx + 1 \<le> j \<and> j < i \<longrightarrow> \<not> reusable p sz j" by blast
        have "\<forall>j. idx \<le> j \<and> j < i \<longrightarrow> \<not> reusable p sz j"
          using i(4) False by (metis Suc_eq_plus1 Suc_leI le_neq_implies_less)
        with i step show ?thesis by (intro disjI1 exI [of _ i]) auto
      next
        assume a: "find_loop p sz (idx + 1) = Inr (- 1) \<and> (\<forall>j. idx + 1 \<le> j \<longrightarrow> \<not> reusable p sz j)"
        have "\<forall>j. idx \<le> j \<longrightarrow> \<not> reusable p sz j"
          using a False by (metis Suc_eq_plus1 Suc_leI le_neq_implies_less)
        with a step show ?thesis by auto
      qed
    qed
  qed
qed

lemma release_loop_spec:
  assumes "length (vectors p) = length (inUse p)"
  shows "(\<exists>i. release_loop p a idx = Inr (p\<lparr>inUse := (inUse p)[i := False]\<rparr>, 0) \<and> idx \<le> i \<and>
              i < length (vectors p) \<and> fst (vectors p ! i) = a \<and>
              (\<forall>j. idx \<le> j \<and> j < i \<longrightarrow> fst (vectors p ! j) \<noteq> a))
       \<or> (release_loop p a idx = Inr (p, 1) \<and>
            (\<forall>j. idx \<le> j \<and> j < length (vectors p) \<longrightarrow> fst (vectors p ! j) \<noteq> a))"
  using assms
proof (induction p a idx rule: release_loop.induct)
  case (1 p a idx)
  show ?case
  proof (cases "idx < length (vectors p)")
    case False
    then show ?thesis by (subst release_loop.simps, subst release_loop.simps) auto
  next
    case lt: True
    show ?thesis
    proof (cases "a = fst (vectors p ! idx)")
      case True
      then have "release_loop p a idx = Inr (p\<lparr>inUse := (inUse p)[idx := False]\<rparr>, 0)"
        using lt "1.prems" by (subst release_loop.simps) auto
      with True lt show ?thesis by (intro disjI1 exI [of _ idx]) auto
    next
      case False
      then have step: "release_loop p a idx = release_loop p a (idx + 1)"
        using lt by (subst release_loop.simps) auto
      from "1.IH" [OF lt False "1.prems"] show ?thesis
      proof
        assume "\<exists>i. release_loop p a (idx + 1) = Inr (p\<lparr>inUse := (inUse p)[i := False]\<rparr>, 0) \<and>
          idx + 1 \<le> i \<and> i < length (vectors p) \<and> fst (vectors p ! i) = a \<and>
          (\<forall>j. idx + 1 \<le> j \<and> j < i \<longrightarrow> fst (vectors p ! j) \<noteq> a)"
        then obtain i where i: "release_loop p a (idx + 1) = Inr (p\<lparr>inUse := (inUse p)[i := False]\<rparr>, 0)"
          "idx + 1 \<le> i" "i < length (vectors p)" "fst (vectors p ! i) = a"
          "\<forall>j. idx + 1 \<le> j \<and> j < i \<longrightarrow> fst (vectors p ! j) \<noteq> a" by blast
        have "\<forall>j. idx \<le> j \<and> j < i \<longrightarrow> fst (vectors p ! j) \<noteq> a"
          using i(5) False by (metis Suc_eq_plus1 Suc_leI le_neq_implies_less)
        with i step show ?thesis by (intro disjI1 exI [of _ i]) auto
      next
        assume a: "release_loop p a (idx + 1) = Inr (p, 1) \<and>
            (\<forall>j. idx + 1 \<le> j \<and> j < length (vectors p) \<longrightarrow> fst (vectors p ! j) \<noteq> a)"
        have "\<forall>j. idx \<le> j \<and> j < length (vectors p) \<longrightarrow> fst (vectors p ! j) \<noteq> a"
          using a False by (metis Suc_eq_plus1 Suc_leI le_neq_implies_less)
        with a step show ?thesis by auto
      qed
    qed
  qed
qed

lemma clear_loop_spec:
  assumes "length (vectors p) = length (inUse p)"
  shows "clear_loop p idx vs us =
           Inr (vs @ map fst (filter snd (drop idx (zip (vectors p) (inUse p)))),
                us @ filter (\<lambda>b. b) (drop idx (inUse p)))"
  using assms
proof (induction p idx vs us rule: clear_loop.induct)
  case (1 p idx vs us)
  show ?case
  proof (cases "idx < length (inUse p)")
    case False
    then show ?thesis using "1.prems" by (subst clear_loop.simps) auto
  next
    case lt: True
    then have lt': "idx < length (vectors p)" using "1.prems" by simp
    have d1: "drop idx (inUse p) = inUse p ! idx # drop (idx + 1) (inUse p)"
      using lt by (simp add: Cons_nth_drop_Suc)
    have d2: "drop idx (zip (vectors p) (inUse p)) =
         (vectors p ! idx, inUse p ! idx) # drop (idx + 1) (zip (vectors p) (inUse p))"
      using lt lt' by (simp add: Cons_nth_drop_Suc [symmetric])
    show ?thesis
    proof (cases "inUse p ! idx")
      case True
      have "clear_loop p idx vs us = clear_loop p (idx + 1) (vs @ [vectors p ! idx]) (us @ [inUse p ! idx])"
        using lt lt' True by (subst clear_loop.simps) auto
      also have "\<dots> = Inr ((vs @ [vectors p ! idx]) @ map fst (filter snd (drop (idx + 1) (zip (vectors p) (inUse p)))),
                (us @ [inUse p ! idx]) @ filter (\<lambda>b. b) (drop (idx + 1) (inUse p)))"
        using "1.IH"(1) [OF lt True lt' "1.prems"] .
      finally show ?thesis using True by (simp add: d1 d2)
    next
      case False
      have "clear_loop p idx vs us = clear_loop p (idx + 1) vs us"
        using lt False by (subst clear_loop.simps) auto
      also have "\<dots> = Inr (vs @ map fst (filter snd (drop (idx + 1) (zip (vectors p) (inUse p)))),
                us @ filter (\<lambda>b. b) (drop (idx + 1) (inUse p)))"
        using "1.IH"(2) [OF lt False "1.prems"] .
      finally show ?thesis using False by (simp add: d1 d2)
    qed
  qed
qed

lemma filter_zip_lengths:
  "length xs = length bs \<Longrightarrow>
   length (filter snd (zip xs bs)) = length (filter (\<lambda>b. b) bs)"
  by (induction xs bs rule: list_induct2) auto

lemma filter_zip_subset:
  "set (map fst (filter snd (zip xs bs))) \<subseteq> set xs"
  by (auto dest: set_zip_leftD)

lemma distinct_filter_zip:
  "length xs = length bs \<Longrightarrow> distinct (map f xs) \<Longrightarrow>
   distinct (map f (map fst (filter snd (zip xs bs))))"
proof (induction xs bs rule: list_induct2)
  case Nil
  then show ?case by simp
next
  case (Cons x xs b bs)
  have "set (map fst (filter snd (zip xs bs))) \<subseteq> set xs" by (rule filter_zip_subset)
  with Cons show ?case by auto
qed

lemma get_pool_reuse:
  assumes inv: "pool_inv p" and i: "find_loop p sz 0 = Inr (int i)" "reusable p sz i"
  shows "get_pool p sz = Inr (p\<lparr>inUse := (inUse p)[i := True]\<rparr>, vectors p ! i)"
proof -
  from inv have len: "length (vectors p) = length (inUse p)" by (simp add: pool_inv_def)
  from i(2) have "i < length (vectors p)" by (simp add: reusable_def)
  with i(1) len show ?thesis by (simp add: get_pool_def find_pool_def)
qed

lemma get_pool_alloc:
  assumes "find_loop p sz 0 = Inr (- 1)"
  shows "get_pool p sz =
     Inr (p\<lparr>vectors := vectors p @ [(heapNext p, replicate sz 0)], inUse := inUse p @ [True],
            heapNext := Suc (heapNext p)\<rparr>, (heapNext p, replicate sz 0))"
  using assms by (simp add: get_pool_def find_pool_def Let_def)

lemma get_pool_spec:
  assumes inv: "pool_inv p"
  shows "\<exists>p' v. get_pool p sz = Inr (p', v) \<and> pool_inv p' \<and> length (snd v) = sz \<and>
      (\<exists>i < length (vectors p'). vectors p' ! i = v \<and> inUse p' ! i) \<and>
      ((\<exists>i. reusable p sz i) \<longrightarrow>
         (\<exists>i. reusable p sz i \<and> v = vectors p ! i \<and> vectors p' = vectors p \<and>
              inUse p' = (inUse p)[i := True])) \<and>
      ((\<forall>i. \<not> reusable p sz i) \<longrightarrow>
         fst v \<notin> fst ` set (vectors p) \<and> vectors p' = vectors p @ [v] \<and>
         inUse p' = inUse p @ [True])"
proof -
  from inv have len: "length (vectors p) = length (inUse p)" by (simp add: pool_inv_def)
  from find_loop_spec [OF len, of sz 0] show ?thesis
  proof
    assume "\<exists>i. find_loop p sz 0 = Inr (int i) \<and> 0 \<le> i \<and> reusable p sz i \<and>
              (\<forall>j. 0 \<le> j \<and> j < i \<longrightarrow> \<not> reusable p sz j)"
    then obtain i where i: "find_loop p sz 0 = Inr (int i)" "reusable p sz i" by blast
    then have il: "i < length (vectors p)" "length (snd (vectors p ! i)) = sz"
      by (simp_all add: reusable_def)
    let ?p' = "p\<lparr>inUse := (inUse p)[i := True]\<rparr>"
    have g: "get_pool p sz = Inr (?p', vectors p ! i)"
      by (rule get_pool_reuse [OF inv i])
    have c1: "pool_inv ?p'" using inv by (simp add: pool_inv_def)
    have c2: "\<exists>k < length (vectors ?p'). vectors ?p' ! k = vectors p ! i \<and> inUse ?p' ! k"
      using il len by (intro exI [of _ i]) simp
    have c3: "\<exists>k. reusable p sz k \<and> vectors p ! i = vectors p ! k \<and> vectors ?p' = vectors p \<and>
              inUse ?p' = (inUse p)[k := True]"
      using i(2) by (intro exI [of _ i]) simp
    have c4: "\<not> (\<forall>k. \<not> reusable p sz k)" using i(2) by blast
    show ?thesis
      apply (rule exI [of _ ?p'])
      apply (rule exI [of _ "vectors p ! i"])
      using g c1 il(2) c2 c3 c4 by blast
  next
    assume a: "find_loop p sz 0 = Inr (- 1) \<and> (\<forall>j. 0 \<le> j \<longrightarrow> \<not> reusable p sz j)"
    let ?v = "(heapNext p, replicate sz (0::rat))"
    let ?p' = "p\<lparr>vectors := vectors p @ [?v], inUse := inUse p @ [True], heapNext := Suc (heapNext p)\<rparr>"
    have g: "get_pool p sz = Inr (?p', ?v)"
      using a by (intro get_pool_alloc) simp
    have fresh: "fst ?v \<notin> fst ` set (vectors p)"
      using inv by (auto simp: pool_inv_def list_all_iff)
    have "list_all (\<lambda>v. fst v < Suc (heapNext p)) (vectors p)"
      using inv by (auto simp: pool_inv_def list_all_iff less_Suc_eq)
    then have c1: "pool_inv ?p'"
      using inv fresh by (simp add: pool_inv_def)
    have c2: "\<exists>k < length (vectors ?p'). vectors ?p' ! k = ?v \<and> inUse ?p' ! k"
      using len by (intro exI [of _ "length (vectors p)"]) (simp add: nth_append)
    have c3: "length (snd ?v) = sz" by simp
    have c4: "\<not> (\<exists>k. reusable p sz k)" using a by simp
    have c5: "vectors ?p' = vectors p @ [?v] \<and> inUse ?p' = inUse p @ [True]" by simp
    show ?thesis
      apply (rule exI [of _ ?p'])
      apply (rule exI [of _ ?v])
      using g c1 c2 c3 c4 c5 fresh by blast
  qed
qed

lemma release_pool_spec:
  assumes inv: "pool_inv p"
  shows "\<exists>p' n. release_pool p vec = Inr (p', n) \<and> pool_inv p' \<and> vectors p' = vectors p \<and>
       length (inUse p') = length (inUse p) \<and>
       (\<forall>i < length (vectors p).
          inUse p' ! i = (if fst (vectors p ! i) = fst vec then False else inUse p ! i))"
proof -
  from inv have len: "length (vectors p) = length (inUse p)"
    and dist: "distinct (map fst (vectors p))" by (simp_all add: pool_inv_def)
  from release_loop_spec [OF len, of "fst vec" 0] show ?thesis
  proof
    assume "\<exists>i. release_loop p (fst vec) 0 = Inr (p\<lparr>inUse := (inUse p)[i := False]\<rparr>, 0) \<and> 0 \<le> i \<and>
              i < length (vectors p) \<and> fst (vectors p ! i) = fst vec \<and>
              (\<forall>j. 0 \<le> j \<and> j < i \<longrightarrow> fst (vectors p ! j) \<noteq> fst vec)"
    then obtain i where i: "release_loop p (fst vec) 0 = Inr (p\<lparr>inUse := (inUse p)[i := False]\<rparr>, 0)"
      "i < length (vectors p)" "fst (vectors p ! i) = fst vec" by blast
    have uniq: "k = i" if "k < length (vectors p)" "fst (vectors p ! k) = fst vec" for k
    proof -
      have "\<forall>a<length (vectors p). \<forall>b<length (vectors p).
              a \<noteq> b \<longrightarrow> fst (vectors p ! a) \<noteq> fst (vectors p ! b)"
        using dist by (simp add: distinct_conv_nth)
      then show ?thesis using that i(2,3) by metis
    qed
    let ?p' = "p\<lparr>inUse := (inUse p)[i := False]\<rparr>"
    have c1: "pool_inv ?p'" using inv by (simp add: pool_inv_def)
    have c2: "\<forall>k < length (vectors p).
          inUse ?p' ! k = (if fst (vectors p ! k) = fst vec then False else inUse p ! k)"
    proof (intro allI impI)
      fix k assume k: "k < length (vectors p)"
      show "inUse ?p' ! k = (if fst (vectors p ! k) = fst vec then False else inUse p ! k)"
      proof (cases "fst (vectors p ! k) = fst vec")
        case True
        with uniq [OF k] have "k = i" by simp
        with True k len show ?thesis by simp
      next
        case False
        with i(3) have "k \<noteq> i" by auto
        with False show ?thesis by simp
      qed
    qed
    show ?thesis using i(1) c1 c2 by (simp add: release_pool_def)
  next
    assume "release_loop p (fst vec) 0 = Inr (p, 1) \<and>
            (\<forall>j. 0 \<le> j \<and> j < length (vectors p) \<longrightarrow> fst (vectors p ! j) \<noteq> fst vec)"
    then show ?thesis using inv by (simp add: release_pool_def)
  qed
qed

lemma clear_pool_spec:
  assumes inv: "pool_inv p"
  shows "\<exists>p'. clear_pool p = Inr p' \<and> pool_inv p' \<and>
       vectors p' = map fst (filter snd (zip (vectors p) (inUse p))) \<and>
       inUse p' = filter (\<lambda>b. b) (inUse p)"
proof -
  from inv have len: "length (vectors p) = length (inUse p)"
    and dist: "distinct (map fst (vectors p))"
    and alloc: "list_all (\<lambda>v. fst v < heapNext p) (vectors p)" by (simp_all add: pool_inv_def)
  let ?vs = "map fst (filter snd (zip (vectors p) (inUse p)))"
  let ?us = "filter (\<lambda>b. b) (inUse p)"
  let ?p' = "p\<lparr>vectors := ?vs, inUse := ?us\<rparr>"
  have c: "clear_pool p = Inr ?p'"
    using clear_loop_spec [OF len, of 0 "[]" "[]"] by (simp add: clear_pool_def)
  have l: "length ?vs = length ?us" using filter_zip_lengths [OF len] by simp
  have d: "distinct (map fst ?vs)" using distinct_filter_zip [OF len dist] .
  have "set ?vs \<subseteq> set (vectors p)" by (rule filter_zip_subset)
  then have a: "list_all (\<lambda>v. fst v < heapNext p) ?vs"
    using alloc unfolding list_all_iff by blast
  from l d a have "pool_inv ?p'" by (simp add: pool_inv_def)
  with c show ?thesis by simp
qed

text \<open>
  Claim C10. On a pool whose two vectors have equal length (and whose pointers are the
  distinct live addresses the allocator handed out), \<open>get\<close>, \<open>release\<close> and
  \<open>clear\<close> all return normally and re-establish that invariant. \<open>get sz\<close>
  returns a vector of exactly \<open>sz\<close> elements whose entry is marked busy; when a
  free size-matched entry exists it is one of those and nothing is allocated, otherwise a
  new entry with a fresh address is appended. \<open>release\<close> clears the busy flag of the
  entry holding the pointer and changes no other flag. \<open>clear\<close> keeps exactly the
  busy entries, in order.
\<close>

theorem FloatVectorPool_operations:
  assumes "pool_inv p"
  shows "(\<exists>p' v. get_pool p sz = Inr (p', v) \<and> pool_inv p' \<and> length (snd v) = sz \<and>
            (\<exists>i < length (vectors p'). vectors p' ! i = v \<and> inUse p' ! i) \<and>
            ((\<exists>i. reusable p sz i) \<longrightarrow>
               (\<exists>i. reusable p sz i \<and> v = vectors p ! i \<and> vectors p' = vectors p \<and>
                    inUse p' = (inUse p)[i := True])) \<and>
            ((\<forall>i. \<not> reusable p sz i) \<longrightarrow>
               fst v \<notin> fst ` set (vectors p) \<and> vectors p' = vectors p @ [v] \<and>
               inUse p' = inUse p @ [True]))
       \<and> (\<exists>p' n. release_pool p vec = Inr (p', n) \<and> pool_inv p' \<and> vectors p' = vectors p \<and>
            length (inUse p') = length (inUse p) \<and>
            (\<forall>i < length (vectors p).
               inUse p' ! i = (if fst (vectors p ! i) = fst vec then False else inUse p ! i)))
       \<and> (\<exists>p'. clear_pool p = Inr p' \<and> pool_inv p' \<and>
            vectors p' = map fst (filter snd (zip (vectors p) (inUse p))) \<and>
            inUse p' = filter (\<lambda>b. b) (inUse p))"
  using get_pool_spec [OF assms, of sz] release_pool_spec [OF assms, of vec]
    clear_pool_spec [OF assms]
  by (intro conjI)

theorem FloatVectorPool_operations_witness:
  "pool_inv pool_example \<and> reusable pool_example 3 1 \<and> (\<forall>i. \<not> reusable pool_example 5 i) \<and>
   (\<exists>p' v. get_pool pool_example 3 = Inr (p', v) \<and> pool_inv p' \<and> length (snd v) = 3 \<and>
      vectors p' = vectors pool_example) \<and>
   (\<exists>p' v. get_pool pool_example 5 = Inr (p', v) \<and> pool_inv p' \<and> length (snd v) = 5 \<and>
      vectors p' = vectors pool_example @ [v]) \<and>
   (\<exists>p' n. release_pool pool_example (0, [0, 0]) = Inr (p', n) \<and> pool_inv p' \<and>
      \<not> inUse p' ! 0) \<and>
   (\<exists>p'. clear_pool pool_example = Inr p' \<and> pool_inv p' \<and> vectors p' = [(0, [0, 0])])"
proof -
  have inv: "pool_inv pool_example"
    by (simp add: pool_example_def pool_inv_def)
  have r3: "reusable pool_example 3 1"
    by (simp add: pool_example_def reusable_def)
  have r5: "\<forall>i. \<not> reusable pool_example 5 i"
  proof (intro allI notI)
    fix i assume "reusable pool_example 5 i"
    then have "i < 2" "length (snd (vectors pool_example ! i)) = 5"
      by (simp_all add: reusable_def pool_example_def)
    then show False by (auto simp: pool_example_def dest!: less_2_cases)
  qed
  have f: "map fst (filter snd (zip (vectors pool_example) (inUse pool_example))) = [(0, [0, 0])]"
    by (simp add: pool_example_def)
  have z: "0 < length (vectors pool_example)" "fst (vectors pool_example ! 0) = 0"
    by (simp_all add: pool_example_def)
  from FloatVectorPool_operations [OF inv, of 3 "(0, [0, 0])"] r3
  have g3: "\<exists>p' v. get_pool pool_example 3 = Inr (p', v) \<and> pool_inv p' \<and> length (snd v) = 3 \<and>
      vectors p' = vectors pool_example"
    and rel: "\<exists>p' n. release_pool pool_example (0, [0, 0]) = Inr (p', n) \<and> pool_inv p' \<and>
      \<not> inUse p' ! 0"
    and clr: "\<exists>p'. clear_pool pool_example = Inr p' \<and> pool_inv p' \<and> vectors p' = [(0, [0, 0])]"
    using z f by (blast, force, force)
  from FloatVectorPool_operations [OF inv, of 5 "(0, [0, 0])"] r5
  have g5: "\<exists>p' v. get_pool pool_example 5 = Inr (p', v) \<and> pool_inv p' \<and> length (snd v) = 5 \<and>
      vectors p' = vectors pool_example @ [v]"
    by blast
  from inv r3 r5 g3 g5 rel clr show ?thesis by (intro conjI)
qed

section \<open>Theorems: RtdMetadata::adjustTimestamp\<close>

lemma mask_consts:
  "(0xfff0 :: 64 word) = push_bit 4 (mask 12)"
  "(0x0fff0000 :: 64 word) = push_bit 16 (mask 12)"
  "(0xfff0000000 :: 64 word) = push_bit 28 (mask 12)"
  "(0xfff0000000000 :: 64 word) = push_bit 40 (mask 12)"
  "(0xff0 :: 64 word) = push_bit 4 (mask 8)"
  "(0xf :: 64 word) = mask 4"
  by (simp_all add: mask_eq_decr_exp push_bit_eq_mult)

lemma field3_back:
  fixes S :: "64 word"
  shows "ucast (ucast (S AND 0xfff0) :: 16 word) AND (0xfff0 :: 64 word) = S AND 0xfff0"
  unfolding mask_consts
  apply (rule bit_word_eqI)
  apply (auto simp add: bit_simps)
  done

lemma field4_back:
  fixes S :: "64 word"
  shows "push_bit 12 (ucast (ucast (drop_bit 12 (S AND 0x0fff0000)) :: 16 word) AND (0xfff0 :: 64 word))
         = S AND 0x0fff0000"
  unfolding mask_consts
  apply (rule bit_word_eqI)
  apply (auto simp add: bit_simps)
  done

lemma field5_back:
  fixes S :: "64 word"
  shows "push_bit 24 (ucast (ucast (drop_bit 24 (S AND 0xfff0000000)) :: 16 word) AND (0xfff0 :: 64 word))
         = S AND 0xfff0000000"
  unfolding mask_consts
  apply (rule bit_word_eqI)
  apply (auto simp add: bit_simps)
  done

lemma field6_back:
  fixes S :: "64 word"
  shows "push_bit 36 (ucast (ucast (drop_bit 36 (S AND 0xfff0000000000)) :: 16 word) AND (0xfff0 :: 64 word))
         = S AND 0xfff0000000000"
  unfolding mask_consts
  apply (rule bit_word_eqI)
  apply (auto simp add: bit_simps)
  done

lemma field2_back:
  fixes S :: "64 word" and x :: "16 word"
  shows "drop_bit 12 (ucast (ucast ((ucast (ucast (ucast x AND (0xff0 :: 64 word)) :: 16 word)
                      OR push_bit 12 (S AND 0xf)) :: 64 word) :: 16 word) :: 64 word)
         = S AND 0xf"
  unfolding mask_consts
  apply (rule bit_word_eqI)
  apply (auto simp add: bit_simps)
  done

lemma field2_ns:
  fixes S :: "64 word" and x :: "16 word"
  shows "(ucast ((ucast (ucast (ucast x AND (0xff0 :: 64 word)) :: 16 word)
                      OR push_bit 12 (S AND 0xf)) :: 64 word) :: 16 word) AND 0xff0
         = x AND 0xff0"
proof -
  have m: "(0xff0 :: 16 word) = push_bit 4 (mask 8)"
    by (simp add: mask_eq_decr_exp push_bit_eq_mult)
  show ?thesis
    unfolding mask_consts m
    apply (rule bit_word_eqI)
    apply (auto simp add: bit_simps)
    done
qed

lemma masks_join:
  fixes S :: "64 word"
  shows "(S AND 0xf) OR (S AND 0xfff0) OR (S AND 0x0fff0000) OR (S AND 0xfff0000000) OR
     (S AND 0xfff0000000000) = S AND mask 52"
  unfolding mask_consts
  apply (rule bit_word_eqI)
  apply (auto simp add: bit_simps)
  done

lemma seconds_of_52_bits: "seconds_of md AND mask 52 = seconds_of md"
  unfolding seconds_of_def mask_consts
  apply (rule bit_word_eqI)
  apply (auto simp add: bit_simps)
  done

lemma update_five_words:
  assumes "31 \<le> length xs"
  shows "xs[26 := a, 27 := b, 28 := c, 29 := d, 30 := e] ! 26 = a"
    and "xs[26 := a, 27 := b, 28 := c, 29 := d, 30 := e] ! 27 = b"
    and "xs[26 := a, 27 := b, 28 := c, 29 := d, 30 := e] ! 28 = c"
    and "xs[26 := a, 27 := b, 28 := c, 29 := d, 30 := e] ! 29 = d"
    and "xs[26 := a, 27 := b, 28 := c, 29 := d, 30 := e] ! 30 = e"
  using assms by simp_all

lemma adjustTimestamp_words:
  assumes len: "MD_WORDS \<le> length md" and nz: "off \<noteq> 0"
  defines "S \<equiv> seconds_of md + off"
  shows "adjustTimestamp md off ! OFS_timestamp2 =
           ucast ((ucast (ucast (ucast (md ! OFS_timestamp2) AND (0xff0 :: 64 word)) :: 16 word)
                      OR push_bit 12 (S AND 0xf)) :: 64 word)"
    and "adjustTimestamp md off ! OFS_timestamp3 = ucast (S AND 0xfff0)"
    and "adjustTimestamp md off ! OFS_timestamp4 = ucast (drop_bit 12 (S AND 0x0fff0000))"
    and "adjustTimestamp md off ! OFS_timestamp5 = ucast (drop_bit 24 (S AND 0xfff0000000))"
    and "adjustTimestamp md off ! OFS_timestamp6 = ucast (drop_bit 36 (S AND 0xfff0000000000))"
proof -
  have l: "31 \<le> length md" using len by (simp add: MD_WORDS_def)
  have e: "adjustTimestamp md off =
     md[26 := ucast ((ucast (ucast (ucast (md ! 26) AND (0xff0 :: 64 word)) :: 16 word)
                      OR push_bit 12 (S AND 0xf)) :: 64 word),
        27 := ucast (S AND 0xfff0),
        28 := ucast (drop_bit 12 (S AND 0x0fff0000)),
        29 := ucast (drop_bit 24 (S AND 0xfff0000000)),
        30 := ucast (drop_bit 36 (S AND 0xfff0000000000))]"
    unfolding adjustTimestamp_def Let_def S_def OFS_defs using nz by (simp only: if_True not_False_eq_True)
  show "adjustTimestamp md off ! OFS_timestamp2 =
           ucast ((ucast (ucast (ucast (md ! OFS_timestamp2) AND (0xff0 :: 64 word)) :: 16 word)
                      OR push_bit 12 (S AND 0xf)) :: 64 word)"
    unfolding e OFS_defs by (rule update_five_words(1) [OF l])
  show "adjustTimestamp md off ! OFS_timestamp3 = ucast (S AND 0xfff0)"
    unfolding e OFS_defs by (rule update_five_words(2) [OF l])
  show "adjustTimestamp md off ! OFS_timestamp4 = ucast (drop_bit 12 (S AND 0x0fff0000))"
    unfolding e OFS_defs by (rule update_five_words(3) [OF l])
  show "adjustTimestamp md off ! OFS_timestamp5 = ucast (drop_bit 24 (S AND 0xfff0000000))"
    unfolding e OFS_defs by (rule update_five_words(4) [OF l])
  show "adjustTimestamp md off ! OFS_timestamp6 = ucast (drop_bit 36 (S AND 0xfff0000000000))"
    unfolding e OFS_defs by (rule update_five_words(5) [OF l])
qed

lemma seconds_of_adjustTimestamp:
  assumes len: "MD_WORDS \<le> length md"
  shows "seconds_of (adjustTimestamp md off) = (seconds_of md + off) AND mask 52"
proof (cases "off = 0")
  case True
  then show ?thesis by (simp add: adjustTimestamp_def seconds_of_52_bits)
next
  case False
  define S where "S = seconds_of md + off"
  note w = adjustTimestamp_words [OF len False, folded S_def]
  have "seconds_of (adjustTimestamp md off) =
          (S AND 0xf) OR (S AND 0xfff0) OR (S AND 0x0fff0000) OR (S AND 0xfff0000000) OR
          (S AND 0xfff0000000000)"
    unfolding seconds_of_def [of "adjustTimestamp md off"] w
    by (simp only: field2_back field3_back field4_back field5_back field6_back)
  also have "\<dots> = S AND mask 52" by (rule masks_join)
  finally show ?thesis by (simp add: S_def)
qed

lemma adjustTimestamp_ns_bits:
  assumes len: "MD_WORDS \<le> length md"
  shows "adjustTimestamp md off ! OFS_timestamp2 AND 0xff0 = md ! OFS_timestamp2 AND 0xff0"
proof (cases "off = 0")
  case True
  then show ?thesis by (simp add: adjustTimestamp_def)
next
  case False
  show ?thesis
    unfolding adjustTimestamp_words(1) [OF len False] by (rule field2_ns)
qed

text \<open>
  Claim C6, as stated, fails: the seconds occupy five words, not four. On the metadata of
  the repository's own unit test, adding one second changes each of
  \<open>timestamp2..timestamp6\<close>, so no choice of four words covers the edit.
\<close>

theorem adjustTimestamp_four_words_counterexample:
  "adjustTimestamp md_timestamp_test 1 ! OFS_timestamp2 \<noteq> md_timestamp_test ! OFS_timestamp2 \<and>
   adjustTimestamp md_timestamp_test 1 ! OFS_timestamp3 \<noteq> md_timestamp_test ! OFS_timestamp3 \<and>
   adjustTimestamp md_timestamp_test 1 ! OFS_timestamp4 \<noteq> md_timestamp_test ! OFS_timestamp4 \<and>
   adjustTimestamp md_timestamp_test 1 ! OFS_timestamp5 \<noteq> md_timestamp_test ! OFS_timestamp5 \<and>
   adjustTimestamp md_timestamp_test 1 ! OFS_timestamp6 \<noteq> md_timestamp_test ! OFS_timestamp6"
  by (simp add: adjustTimestamp_def md_timestamp_test_def seconds_of_def OFS_defs MD_WORDS_def
      Let_def)

text \<open>
  Claim C6, amended. On a buffer that holds a \<open>Metadata_t\<close>, \<open>adjustTimestamp\<close>
  adds the offset to the 52-bit seconds field modulo \<open>2^52\<close>, keeps the length, leaves
  every word other than \<open>timestamp2..timestamp6\<close> unchanged and keeps the
  nanosecond bits (bits 4..11) of \<open>timestamp2\<close>; with offset 0 it returns the
  metadata unchanged.
\<close>

theorem adjustTimestamp_effect:
  assumes "MD_WORDS \<le> length md"
  shows "length (adjustTimestamp md off) = length md \<and>
         (\<forall>i. i \<notin> {OFS_timestamp2, OFS_timestamp3, OFS_timestamp4, OFS_timestamp5, OFS_timestamp6}
              \<longrightarrow> adjustTimestamp md off ! i = md ! i) \<and>
         seconds_of (adjustTimestamp md off) = (seconds_of md + off) AND mask 52 \<and>
         adjustTimestamp md off ! OFS_timestamp2 AND 0xff0 = md ! OFS_timestamp2 AND 0xff0 \<and>
         adjustTimestamp md 0 = md"
proof (intro conjI)
  show "length (adjustTimestamp md off) = length md"
    by (simp add: adjustTimestamp_def Let_def)
  show "\<forall>i. i \<notin> {OFS_timestamp2, OFS_timestamp3, OFS_timestamp4, OFS_timestamp5, OFS_timestamp6}
              \<longrightarrow> adjustTimestamp md off ! i = md ! i"
    by (simp add: adjustTimestamp_def Let_def)
  show "seconds_of (adjustTimestamp md off) = (seconds_of md + off) AND mask 52"
    by (rule seconds_of_adjustTimestamp [OF assms])
  show "adjustTimestamp md off ! OFS_timestamp2 AND 0xff0 = md ! OFS_timestamp2 AND 0xff0"
    by (rule adjustTimestamp_ns_bits [OF assms])
  show "adjustTimestamp md 0 = md"
    by (simp add: adjustTimestamp_def)
qed

theorem adjustTimestamp_effect_witness:
  "MD_WORDS \<le> length md_timestamp_test \<and>
   seconds_of md_timestamp_test = 0x234f01cde9ab6 \<and>
   seconds_of (adjustTimestamp md_timestamp_test 0xabbacddceffea) = 0xcf09cfaad9aa0 \<and>
   adjustTimestamp md_timestamp_test 0xabbacddceffea ! OFS_timestamp0 = 0x0125 \<and>
   adjustTimestamp md_timestamp_test 0xabbacddceffea ! OFS_timestamp2 AND 0xff0 = 0x780 \<and>
   adjustTimestamp md_timestamp_test 0 = md_timestamp_test"
proof -
  have len: "MD_WORDS \<le> length md_timestamp_test"
    by (simp add: md_timestamp_test_def MD_WORDS_def)
  have s: "seconds_of md_timestamp_test = 0x234f01cde9ab6"
    by (simp add: md_timestamp_test_def seconds_of_def OFS_defs MD_WORDS_def)
  have z: "md_timestamp_test ! OFS_timestamp0 = 0x0125"
    "md_timestamp_test ! OFS_timestamp2 AND 0xff0 = 0x780"
    "OFS_timestamp0 \<notin> {OFS_timestamp2, OFS_timestamp3, OFS_timestamp4, OFS_timestamp5, OFS_timestamp6}"
    by (simp_all add: md_timestamp_test_def OFS_defs MD_WORDS_def)
  have a: "(0x234f01cde9ab6 + 0xabbacddceffea :: 64 word) AND mask 52 = 0xcf09cfaad9aa0"
    by (simp add: mask_eq_decr_exp)
  from adjustTimestamp_effect [OF len, of "0xabbacddceffea"] s z a len
  show ?thesis by simp
qed

section \<open>Theorems: GPixel::getGcf\<close>

lemma floor_rat_numeral:
  "\<lfloor>(numeral a :: rat) / numeral b\<rfloor> = numeral a div numeral b"
  using floor_divide_of_int_eq [of "numeral a" "numeral b", where ?'a = rat] by simp

lemma frq_values:
  "frq 3 = 111111112" "frq 4 = 83333336" "frq 5 = 66666668" "frq 6 = 55555556"
  "frq 7 = 47619048" "frq 8 = 41666668" "frq 9 = 37037036" "frq 10 = 33333334"
  "frq 12 = 27777778" "frq 20 = 16666667" "frq 30 = 11111111" "frq 42 = 7936508"
  "frq 56 = 5952381" "frq 72 = 9259259 / 2" "frq 90 = 14814815 / 4"
  by code_simp+

lemmas gcf_tables = IDX_TO_FRQ_LUT_def IDX_TO_GCF_LUT_def GCF34_def GCF45_def GCF56_def
  GCF67_def GCF78_def GCF89_def GCF90_def frq_values

text \<open>Inside the tables (both indices at most 10) the lookup does what the specification
  says, the binary32 rounding of the table constants included.\<close>

lemma getGcf_in_table:
  assumes "n0 \<le> 10" "n1 \<le> 10"
  shows "getGcf n0 n1 = gcf_expected n0 n1"
proof -
  have "n0 \<in> {0, 1, 2, 3, 4, 5, 6, 7, 8, 9, 10}" "n1 \<in> {0, 1, 2, 3, 4, 5, 6, 7, 8, 9, 10}"
    using assms by (simp_all; arith)+
  then show ?thesis
    by (elim insertE emptyE;
        simp add: getGcf_def gcf_tables gcf_expected_def roundf_def floor_rat_numeral)
qed

text \<open>
  Claim C7 says the lookup returns 0 and logs one error for any index outside
  \<open>{3..10}\<close>. The code guards the indices 0, 1 and 2 through the zero entries of
  \<open>IDX_TO_FRQ_LUT\<close>, but nothing guards an index above 10: the pair (12, 11), which
  passes the engine's metadata validation (the indices differ by one), is read past the
  end of the eleven-entry table, where the specification expects 0 and one error line.
\<close>

theorem getGcf_index_beyond_table:
  "getGcf 12 11 = Inl IndexOutOfBounds \<and> gcf_expected 12 11 = Inr (0, 1)"
  by (simp add: getGcf_def gcf_tables gcf_expected_def)

section \<open>Theorems: framed TCP output\<close>


lemma send_loop_prefix:
  "send_loop rs buf = Some (w, f) \<Longrightarrow> prefix w buf \<and> (f = None \<longrightarrow> w = buf)"
proof (induction rs buf arbitrary: w f rule: send_loop.induct)
  case (1 rs)
  then show ?case by simp
next
  case (2 b bs)
  then show ?case by simp
next
  case (3 e rs b bs)
  then show ?case by auto
next
  case (4 n rs b bs)
  from "4.prems" obtain w' where
    r: "send_loop rs (drop n (b # bs)) = Some (w', f)" and w: "w = take n (b # bs) @ w'"
    by (auto split: option.splits)
  from "4.IH" [OF r] have p: "prefix w' (drop n (b # bs))" and c: "f = None \<longrightarrow> w' = drop n (b # bs)"
    by simp_all
  from p obtain z where "drop n (b # bs) = w' @ z" by (auto simp: prefix_def)
  then have "b # bs = (take n (b # bs) @ w') @ z"
    by (metis append_assoc append_take_drop_id)
  then have "prefix w (b # bs)" unfolding w prefix_def by blast
  moreover have "f = None \<longrightarrow> w = b # bs" using c w by (metis append_take_drop_id)
  ultimately show ?case by simp
qed

lemma be_split:
  fixes n :: nat
  assumes "n < 4294967296"
  shows "n div 16777216 mod 256 * 16777216 + n div 65536 mod 256 * 65536
         + n div 256 mod 256 * 256 + n mod 256 = n"
proof -
  have a: "n mod 65536 = 256 * (n div 256 mod 256) + n mod 256"
    using mod_mult2_eq [of n 256 256] by simp
  have b: "n mod 16777216 = 65536 * (n div 65536 mod 256) + n mod 65536"
    using mod_mult2_eq [of n 65536 256] by simp
  have c: "n mod 4294967296 = 16777216 * (n div 16777216 mod 256) + n mod 16777216"
    using mod_mult2_eq [of n 16777216 256] by simp
  have "n mod 4294967296 = n" using assms by simp
  with a b c show ?thesis by linarith
qed

lemma unat_byte_of_word:
  fixes w :: "32 word"
  shows "unat (ucast (drop_bit 24 w) :: byte) = unat w div 16777216 mod 256"
    and "unat (ucast (drop_bit 16 w) :: byte) = unat w div 65536 mod 256"
    and "unat (ucast (drop_bit 8 w) :: byte) = unat w div 256 mod 256"
    and "unat (ucast w :: byte) = unat w mod 256"
  by (simp_all only: unsigned_ucast_eq unat_drop_bit_eq)
     (simp_all add: take_bit_eq_mod drop_bit_eq_div)

lemma be32_store:
  assumes "4 \<le> length buf" "len < 4294967296"
  shows "be32 (store_htonl buf len) = len"
proof -
  define w where "w = (word_of_nat len :: 32 word)"
  have u: "unat w = len" using assms(2) by (simp add: w_def unat_of_nat)
  from assms(1) have ne: "buf \<noteq> []" by auto
  have "be32 (store_htonl buf len) =
      unat (ucast (drop_bit 24 w) :: byte) * 2 ^ 24 + unat (ucast (drop_bit 16 w) :: byte) * 2 ^ 16
      + unat (ucast (drop_bit 8 w) :: byte) * 2 ^ 8 + unat (ucast w :: byte)"
    unfolding be32_def store_htonl_def Let_def w_def [symmetric]
    using assms(1) ne by simp
  also have "\<dots> = len div 16777216 mod 256 * 16777216 + len div 65536 mod 256 * 65536
         + len div 256 mod 256 * 256 + len mod 256"
    apply (subst unat_byte_of_word(1))
    apply (subst unat_byte_of_word(2))
    apply (subst unat_byte_of_word(3))
    apply (subst unat_byte_of_word(4))
    apply (simp add: u)
    done
  also have "\<dots> = len" by (rule be_split [OF assms(2)])
  finally show ?thesis .
qed


lemma send_loop_progress:
  assumes "sends_progress rs" "length buf \<le> length rs"
  shows "send_loop rs buf = Some (buf, None)"
  using assms
proof (induction rs buf rule: send_loop.induct)
  case (1 rs)
  then show ?case by simp
next
  case (2 b bs)
  then show ?case by simp
next
  case (3 e rs b bs)
  then show ?case by (simp add: sends_progress_def)
next
  case (4 n rs b bs)
  from "4.prems"(1) have n: "0 < n" and rest: "sends_progress rs"
    by (simp_all add: sends_progress_def)
  have "length (drop n (b # bs)) \<le> length rs" using "4.prems"(2) n by simp
  from "4.IH" [OF rest this] show ?case by simp
qed

lemma header_shape:
  fixes M len :: nat
  defines "b1 \<equiv> store_htonl (replicate (M + 16) (0 :: byte)) len"
  assumes "len < 4294967296"
  shows "length (take 16 b1) = 16" and "be32 (take 16 b1) = len"
    and "drop 4 (take 16 b1) = replicate 12 0"
proof -
  have l: "length b1 = M + 16" by (simp add: b1_def store_htonl_def Let_def)
  then show "length (take 16 b1) = 16" by simp
  have "be32 (take 16 b1) = be32 b1" by (simp add: be32_def)
  also have "\<dots> = len" unfolding b1_def by (rule be32_store) (use assms in simp_all)
  finally show "be32 (take 16 b1) = len" .
  have "drop 4 b1 = replicate (M + 12) 0"
    by (simp add: b1_def store_htonl_def Let_def)
  then show "drop 4 (take 16 b1) = replicate 12 0"
    by (simp add: drop_take)
qed

lemma frame_shape:
  assumes "length b1 = M + 16" "length payload \<le> M"
  shows "take (length payload + 16) (memcpy_at b1 16 payload) = take 16 b1 @ payload"
  using assms by (simp add: memcpy_at_def)

lemma NetworkSend_frame:
  assumes wf: "streamer_wf s"
    and ok: "m_outputType s = ProcessedData" "length payload \<le> PROCESSEDDATA_PAYLOAD_MAX_SIZE"
      "0 \<le> m_clientfd s"
  shows "\<exists>fr s'. framed payload fr \<and>
           NetworkSend s payload rs = map_option (after_send s') (send_loop rs fr)"
proof -
  define b1 where "b1 = store_htonl (replicate (PROCESSEDDATA_PAYLOAD_MAX_SIZE + 16) (0 :: byte)) (length payload)"
  have lt: "length payload < 4294967296"
    using ok(2) by (simp add: PROCESSEDDATA_PAYLOAD_MAX_SIZE_def)
  have l1: "length b1 = PROCESSEDDATA_PAYLOAD_MAX_SIZE + 16"
    by (simp add: b1_def store_htonl_def Let_def)
  have fr: "take (length payload + 16) (memcpy_at b1 16 payload) = take 16 b1 @ payload"
    by (rule frame_shape [OF l1 ok(2)])
  have "framed payload (take 16 b1 @ payload)"
    unfolding framed_def using header_shape [OF lt, of PROCESSEDDATA_PAYLOAD_MAX_SIZE]
    by (intro exI [of _ "take 16 b1"]) (simp add: b1_def)
  moreover have "NetworkSend s payload rs =
      map_option (after_send (s\<lparr>m_tcpBufferSpace := memcpy_at b1 16 payload\<rparr>))
        (send_loop rs (take 16 b1 @ payload))"
    using wf ok fr
    by (simp add: NetworkSend_def Let_def streamer_wf_def FRAMEING_HEADER_SIZE_def b1_def)
  ultimately show ?thesis by blast
qed

lemma NetworkROISend_frame:
  assumes wf: "streamer_wf s"
    and ok: "m_outputType s = RawData" "length payload \<le> RAWDATA_PAYLOAD_MAX_SIZE"
      "0 \<le> m_clientfd s"
  shows "\<exists>fr s'. framed payload fr \<and>
           NetworkROISend s payload rs = map_option (after_send s') (send_loop rs fr)"
proof -
  define b1 where "b1 = store_htonl (replicate (RAWDATA_PAYLOAD_MAX_SIZE + 16) (0 :: byte)) (length payload)"
  have lt: "length payload < 4294967296"
    using ok(2) by (simp add: RAWDATA_PAYLOAD_MAX_SIZE_def ROI_SIZE_def)
  have l1: "length b1 = RAWDATA_PAYLOAD_MAX_SIZE + 16"
    by (simp add: b1_def store_htonl_def Let_def)
  have fr: "take (length payload + 16) (memcpy_at b1 16 payload) = take 16 b1 @ payload"
    by (rule frame_shape [OF l1 ok(2)])
  have "framed payload (take 16 b1 @ payload)"
    unfolding framed_def using header_shape [OF lt, of RAWDATA_PAYLOAD_MAX_SIZE]
    by (intro exI [of _ "take 16 b1"]) (simp add: b1_def)
  moreover have "NetworkROISend s payload rs =
      map_option (after_send (s\<lparr>m_tcpROIBufferSpace := memcpy_at b1 16 payload\<rparr>))
        (send_loop rs (take 16 b1 @ payload))"
    using wf ok fr
    by (simp add: NetworkROISend_def Let_def streamer_wf_def FRAMEING_HEADER_SIZE_def b1_def)
  ultimately show ?thesis by blast
qed

lemma wire_after_send: "wire (after_send s r) = fst r"
  by (simp add: after_send_def split: option.splits)

lemma framed_length: "framed payload fr \<Longrightarrow> length fr = length payload + 16"
  by (auto simp: framed_def)

lemma NetworkSend_prefix:
  assumes wf: "streamer_wf s" and r: "NetworkSend s payload rs = Some out"
  shows "wire out = [] \<or> (\<exists>fr. framed payload fr \<and> prefix (wire out) fr)"
proof (cases "m_outputType s = ProcessedData \<and> length payload \<le> PROCESSEDDATA_PAYLOAD_MAX_SIZE
    \<and> 0 \<le> m_clientfd s")
  case False
  with r have "wire out = []"
    by (auto simp: NetworkSend_def Let_def split: if_splits)
  then show ?thesis by simp
next
  case True
  with NetworkSend_frame [OF wf, of payload rs] obtain fr s' where
    fr: "framed payload fr" and e: "NetworkSend s payload rs = map_option (after_send s') (send_loop rs fr)"
    by blast
  from e r obtain w f where l: "send_loop rs fr = Some (w, f)" and o: "out = after_send s' (w, f)"
    by (cases "send_loop rs fr") auto
  from send_loop_prefix [OF l] o have "prefix (wire out) fr" by (simp add: wire_after_send)
  with fr show ?thesis by blast
qed

lemma NetworkROISend_prefix:
  assumes wf: "streamer_wf s" and r: "NetworkROISend s payload rs = Some out"
  shows "wire out = [] \<or> (\<exists>fr. framed payload fr \<and> prefix (wire out) fr)"
proof (cases "m_outputType s = RawData \<and> length payload \<le> RAWDATA_PAYLOAD_MAX_SIZE
    \<and> 0 \<le> m_clientfd s")
  case False
  with r have "wire out = []"
    by (auto simp: NetworkROISend_def Let_def split: if_splits)
  then show ?thesis by simp
next
  case True
  with NetworkROISend_frame [OF wf, of payload rs] obtain fr s' where
    fr: "framed payload fr" and e: "NetworkROISend s payload rs = map_option (after_send s') (send_loop rs fr)"
    by blast
  from e r obtain w f where l: "send_loop rs fr = Some (w, f)" and o: "out = after_send s' (w, f)"
    by (cases "send_loop rs fr") auto
  from send_loop_prefix [OF l] o have "prefix (wire out) fr" by (simp add: wire_after_send)
  with fr show ?thesis by blast
qed

lemma NetworkSend_complete:
  assumes wf: "streamer_wf s"
    and ok: "m_outputType s = ProcessedData" "length payload \<le> PROCESSEDDATA_PAYLOAD_MAX_SIZE"
      "0 \<le> m_clientfd s"
    and pr: "sends_progress rs" "length payload + 16 \<le> length rs"
  shows "\<exists>out. NetworkSend s payload rs = Some out \<and> framed payload (wire out)"
proof -
  from NetworkSend_frame [OF wf ok, of rs] obtain fr s' where
    fr: "framed payload fr" and e: "NetworkSend s payload rs = map_option (after_send s') (send_loop rs fr)"
    by blast
  have "length fr \<le> length rs" using framed_length [OF fr] pr(2) by simp
  from send_loop_progress [OF pr(1) this] e fr show ?thesis by (simp add: wire_after_send)
qed

lemma NetworkROISend_complete:
  assumes wf: "streamer_wf s"
    and ok: "m_outputType s = RawData" "length payload \<le> RAWDATA_PAYLOAD_MAX_SIZE"
      "0 \<le> m_clientfd s"
    and pr: "sends_progress rs" "length payload + 16 \<le> length rs"
  shows "\<exists>out. NetworkROISend s payload rs = Some out \<and> framed payload (wire out)"
proof -
  from NetworkROISend_frame [OF wf ok, of rs] obtain fr s' where
    fr: "framed payload fr" and e: "NetworkROISend s payload rs = map_option (after_send s') (send_loop rs fr)"
    by blast
  have "length fr \<le> length rs" using framed_length [OF fr] pr(2) by simp
  from send_loop_progress [OF pr(1) this] e fr show ?thesis by (simp add: wire_after_send)
qed

lemma header_bytes:
  "take 16 (store_htonl (replicate (M + 16) 0) len) =
     [ucast (drop_bit 24 (word_of_nat len :: 32 word)), ucast (drop_bit 16 (word_of_nat len :: 32 word)),
      ucast (drop_bit 8 (word_of_nat len :: 32 word)), ucast (word_of_nat len :: 32 word)]
     @ replicate 12 0"
proof -
  have r: "replicate (M + 16) (0 :: byte) = 0 # 0 # 0 # 0 # replicate 12 0 @ replicate M 0"
    by (simp add: numeral_eq_Suc replicate_add [symmetric])
  have u: "(a # b # c # d # xs)[0 := a', 1 := b', 2 := c', 3 := d'] = a' # b' # c' # d' # xs"
    for a b c d a' b' c' d' :: byte and xs
    by (simp add: numeral_eq_Suc)
  have t: "take 16 (a # b # c # d # replicate 12 e @ ys) = a # b # c # d # replicate 12 e"
    for a b c d e :: byte and ys
    by (simp add: numeral_eq_Suc)
  show ?thesis
    unfolding store_htonl_def Let_def r u t by simp
qed

lemma NetworkSend_wire:
  assumes wf: "streamer_wf s"
    and ok: "m_outputType s = ProcessedData" "length payload \<le> PROCESSEDDATA_PAYLOAD_MAX_SIZE"
      "0 \<le> m_clientfd s"
  shows "map_option wire (NetworkSend s payload rs) =
     map_option fst (send_loop rs
       ([ucast (drop_bit 24 (word_of_nat (length payload) :: 32 word)),
         ucast (drop_bit 16 (word_of_nat (length payload) :: 32 word)),
         ucast (drop_bit 8 (word_of_nat (length payload) :: 32 word)),
         ucast (word_of_nat (length payload) :: 32 word)]
        @ replicate 12 0 @ payload))"
proof -
  define b1 where "b1 = store_htonl (replicate (PROCESSEDDATA_PAYLOAD_MAX_SIZE + 16) (0 :: byte)) (length payload)"
  have l1: "length b1 = PROCESSEDDATA_PAYLOAD_MAX_SIZE + 16"
    by (simp add: b1_def store_htonl_def Let_def)
  have fr: "take (length payload + 16) (memcpy_at b1 16 payload) = take 16 b1 @ payload"
    by (rule frame_shape [OF l1 ok(2)])
  have "NetworkSend s payload rs =
      map_option (after_send (s\<lparr>m_tcpBufferSpace := memcpy_at b1 16 payload\<rparr>))
        (send_loop rs (take 16 b1 @ payload))"
    using wf ok fr
    by (simp add: NetworkSend_def Let_def streamer_wf_def FRAMEING_HEADER_SIZE_def b1_def)
  then show ?thesis
    unfolding b1_def header_bytes
    by (simp add: option.map_comp comp_def wire_after_send)
qed

text \<open>
  Claim C9. On either framed stream (\<open>NetworkSend\<close> for processed data,
  \<open>NetworkROISend\<close> for raw ROIs), whatever reaches the socket is a prefix of the
  16-byte header followed by the payload, where the header's leading big-endian 32-bit
  field is the payload's byte count (the header excluded) and its other 12 bytes are zero;
  and when a client is connected, the payload fits, and every \<open>send\<close> makes progress,
  the call returns and the whole framed message has been sent.
\<close>

theorem framing_header_precedes_payload:
  assumes "streamer_wf s"
  shows "(\<forall>out. NetworkSend s payload rs = Some out \<longrightarrow>
            wire out = [] \<or> (\<exists>fr. framed payload fr \<and> prefix (wire out) fr)) \<and>
         (\<forall>out. NetworkROISend s payload rs = Some out \<longrightarrow>
            wire out = [] \<or> (\<exists>fr. framed payload fr \<and> prefix (wire out) fr)) \<and>
         (m_outputType s = ProcessedData \<and> length payload \<le> PROCESSEDDATA_PAYLOAD_MAX_SIZE \<and>
          0 \<le> m_clientfd s \<and> sends_progress rs \<and> length payload + 16 \<le> length rs \<longrightarrow>
            (\<exists>out. NetworkSend s payload rs = Some out \<and> framed payload (wire out))) \<and>
         (m_outputType s = RawData \<and> length payload \<le> RAWDATA_PAYLOAD_MAX_SIZE \<and>
          0 \<le> m_clientfd s \<and> sends_progress rs \<and> length payload + 16 \<le> length rs \<longrightarrow>
            (\<exists>out. NetworkROISend s payload rs = Some out \<and> framed payload (wire out)))"
  using NetworkSend_prefix [OF assms] NetworkROISend_prefix [OF assms]
    NetworkSend_complete [OF assms] NetworkROISend_complete [OF assms]
  by blast

theorem framing_header_precedes_payload_witness:
  "streamer_wf streamer_example \<and>
   sends_progress (replicate 19 (Sent 1)) \<and>
   map_option wire (NetworkSend streamer_example [1, 2, 3] [Sent 7, Sent 12]) =
     Some [0, 0, 0, 3, 0, 0, 0, 0, 0, 0, 0, 0, 0, 0, 0, 0, 1, 2, 3] \<and>
   framed [1, 2, 3] [0, 0, 0, 3, 0, 0, 0, 0, 0, 0, 0, 0, 0, 0, 0, 0, 1, 2, 3] \<and>
   (\<exists>out. NetworkSend streamer_example [1, 2, 3] (replicate 19 (Sent 1)) = Some out \<and>
      framed [1, 2, 3] (wire out)) \<and>
   (\<exists>out. NetworkROISend (streamer_example\<lparr>m_outputType := RawData\<rparr>) [1, 2, 3]
        (replicate 19 (Sent 1)) = Some out \<and> framed [1, 2, 3] (wire out))"
proof -
  have wf: "streamer_wf streamer_example"
    by (simp add: streamer_wf_def streamer_example_def)
  have wf': "streamer_wf (streamer_example\<lparr>m_outputType := RawData\<rparr>)"
    by (simp add: streamer_wf_def streamer_example_def)
  have pr: "sends_progress (replicate 19 (Sent 1))"
    by (simp add: sends_progress_def list_all_iff)
  have ok: "m_outputType streamer_example = ProcessedData" "0 \<le> m_clientfd streamer_example"
    "length [1, 2, 3 :: byte] \<le> PROCESSEDDATA_PAYLOAD_MAX_SIZE"
    "length [1, 2, 3 :: byte] \<le> RAWDATA_PAYLOAD_MAX_SIZE"
    "length [1, 2, 3 :: byte] + 16 \<le> length (replicate 19 (Sent 1))"
    by (simp_all add: streamer_example_def PROCESSEDDATA_PAYLOAD_MAX_SIZE_def
        RAWDATA_PAYLOAD_MAX_SIZE_def ROI_SIZE_def)
  have r: "replicate 12 (0 :: byte) = [0, 0, 0, 0, 0, 0, 0, 0, 0, 0, 0, 0]"
    by (simp add: numeral_eq_Suc)
  have ev: "map_option wire (NetworkSend streamer_example [1, 2, 3] [Sent 7, Sent 12]) =
     Some [0, 0, 0, 3, 0, 0, 0, 0, 0, 0, 0, 0, 0, 0, 0, 0, 1, 2, 3]"
    unfolding NetworkSend_wire [OF wf ok(1,3,2)] r by simp
  have fr: "framed [1, 2, 3] [0, 0, 0, 3, 0, 0, 0, 0, 0, 0, 0, 0, 0, 0, 0, 0, 1, 2, 3]"
    unfolding framed_def
    by (intro exI [of _ "[0, 0, 0, 3, 0, 0, 0, 0, 0, 0, 0, 0, 0, 0, 0, 0]"])
       (simp add: be32_def r)
  from framing_header_precedes_payload [OF wf, of "[1, 2, 3]" "replicate 19 (Sent 1)"] pr ok
  have a: "\<exists>out. NetworkSend streamer_example [1, 2, 3] (replicate 19 (Sent 1)) = Some out \<and>
      framed [1, 2, 3] (wire out)"
    by blast
  from framing_header_precedes_payload [OF wf', of "[1, 2, 3]" "replicate 19 (Sent 1)"] pr ok
  have b: "\<exists>out. NetworkROISend (streamer_example\<lparr>m_outputType := RawData\<rparr>) [1, 2, 3]
        (replicate 19 (Sent 1)) = Some out \<and> framed [1, 2, 3] (wire out)"
    by simp
  from wf pr ev fr a b show ?thesis by (intro conjI)
qed

section \<open>Theorems: tap rotation\<close>

lemma length_rotate_pixel [simp]: "length (rotate_pixel rv o1 o2 o3 idx frame) = length frame"
  by (simp add: rotate_pixel_def Let_def)

lemma rotate_pixel_nth:
  assumes "3 * idx + 2 < length frame"
  shows "rotate_pixel rv o1 o2 o3 idx frame ! (3 * idx) =
           rv ! (o1 + 3 * idx) + rv ! (o2 + 3 * idx + 1) + rv ! (o3 + 3 * idx + 2)"
    and "rotate_pixel rv o1 o2 o3 idx frame ! (3 * idx + 1) =
           rv ! (o1 + 3 * idx + 1) + rv ! (o2 + 3 * idx + 2) + rv ! (o3 + 3 * idx)"
    and "rotate_pixel rv o1 o2 o3 idx frame ! (3 * idx + 2) =
           rv ! (o1 + 3 * idx + 2) + rv ! (o2 + 3 * idx) + rv ! (o3 + 3 * idx + 1)"
    and "k < 3 * idx \<or> 3 * idx + 3 \<le> k \<Longrightarrow> rotate_pixel rv o1 o2 o3 idx frame ! k = frame ! k"
  using assms by (auto simp add: rotate_pixel_def Let_def)

lemma rotate_loop_spec:
  assumes "o1 + 3 * n \<le> length rv" "o2 + 3 * n \<le> length rv" "o3 + 3 * n \<le> length rv"
    "3 * n \<le> length frame"
  shows "\<exists>frame'. rotate_loop rv o1 o2 o3 n idx frame = Inr frame' \<and>
           length frame' = length frame \<and>
           (\<forall>j. idx \<le> j \<and> j < n \<longrightarrow>
              frame' ! (3 * j) = rv ! (o1 + 3 * j) + rv ! (o2 + 3 * j + 1) + rv ! (o3 + 3 * j + 2) \<and>
              frame' ! (3 * j + 1) = rv ! (o1 + 3 * j + 1) + rv ! (o2 + 3 * j + 2) + rv ! (o3 + 3 * j) \<and>
              frame' ! (3 * j + 2) = rv ! (o1 + 3 * j + 2) + rv ! (o2 + 3 * j) + rv ! (o3 + 3 * j + 1)) \<and>
           (\<forall>k. k < 3 * idx \<or> 3 * n \<le> k \<longrightarrow> frame' ! k = frame ! k)"
  using assms
proof (induction rv o1 o2 o3 n idx frame rule: rotate_loop.induct)
  case (1 rv o1 o2 o3 n idx frame)
  show ?case
  proof (cases "idx < n")
    case False
    then show ?thesis by (subst rotate_loop.simps) auto
  next
    case True
    define fr1 where "fr1 = rotate_pixel rv o1 o2 o3 idx frame"
    have wb: "3 * idx + 2 < length frame" using True "1.prems" by auto
    have acc: "pixel_access rv o1 o2 o3 idx frame = None"
      using True "1.prems" by (auto simp: pixel_access_def)
    have step: "rotate_loop rv o1 o2 o3 n idx frame = rotate_loop rv o1 o2 o3 n (idx + 1) fr1"
      using True acc by (subst rotate_loop.simps) (simp add: fr1_def)
    have l1: "length fr1 = length frame" by (simp add: fr1_def)
    then have "3 * n \<le> length fr1" using "1.prems"(4) by simp
    from "1.IH" [OF True acc "1.prems"(1,2,3), folded fr1_def, OF this]
    obtain frame' where f: "rotate_loop rv o1 o2 o3 n (idx + 1) fr1 = Inr frame'"
      "length frame' = length fr1"
      "\<And>j. idx + 1 \<le> j \<Longrightarrow> j < n \<Longrightarrow>
              frame' ! (3 * j) = rv ! (o1 + 3 * j) + rv ! (o2 + 3 * j + 1) + rv ! (o3 + 3 * j + 2) \<and>
              frame' ! (3 * j + 1) = rv ! (o1 + 3 * j + 1) + rv ! (o2 + 3 * j + 2) + rv ! (o3 + 3 * j) \<and>
              frame' ! (3 * j + 2) = rv ! (o1 + 3 * j + 2) + rv ! (o2 + 3 * j) + rv ! (o3 + 3 * j + 1)"
      "\<And>k. k < 3 * (idx + 1) \<or> 3 * n \<le> k \<Longrightarrow> frame' ! k = fr1 ! k"
      by blast
    have pix: "frame' ! (3 * j) = rv ! (o1 + 3 * j) + rv ! (o2 + 3 * j + 1) + rv ! (o3 + 3 * j + 2) \<and>
              frame' ! (3 * j + 1) = rv ! (o1 + 3 * j + 1) + rv ! (o2 + 3 * j + 2) + rv ! (o3 + 3 * j) \<and>
              frame' ! (3 * j + 2) = rv ! (o1 + 3 * j + 2) + rv ! (o2 + 3 * j) + rv ! (o3 + 3 * j + 1)"
      if j: "idx \<le> j" "j < n" for j
    proof (cases "j = idx")
      case False
      with j f(3) [of j] show ?thesis by simp
    next
      case True
      have "frame' ! (3 * idx) = fr1 ! (3 * idx)" "frame' ! (3 * idx + 1) = fr1 ! (3 * idx + 1)"
        "frame' ! (3 * idx + 2) = fr1 ! (3 * idx + 2)"
        by (rule f(4), simp)+
      then show ?thesis unfolding True fr1_def using rotate_pixel_nth(1,2,3) [OF wb] by simp
    qed
    have keep: "frame' ! k = frame ! k" if k: "k < 3 * idx \<or> 3 * n \<le> k" for k
    proof -
      have "frame' ! k = fr1 ! k" using k by (intro f(4)) auto
      also have "\<dots> = frame ! k" unfolding fr1_def using k True
        by (intro rotate_pixel_nth(4) [OF wb]) auto
      finally show ?thesis .
    qed
    show ?thesis
      unfolding step using f(1,2) l1 pix keep by auto
  qed
qed

lemma copy_loop_spec:
  assumes "k + (length frame - idx) \<le> length rv"
  shows "\<exists>frame'. copy_loop rv k idx frame = Inr frame' \<and> length frame' = length frame \<and>
           (\<forall>j. idx \<le> j \<and> j < length frame \<longrightarrow> frame' ! j = rv ! (k + (j - idx))) \<and>
           (\<forall>j. j < idx \<longrightarrow> frame' ! j = frame ! j)"
  using assms
proof (induction rv k idx frame rule: copy_loop.induct)
  case (1 rv k idx frame)
  show ?case
  proof (cases "idx < length frame")
    case False
    then show ?thesis by (subst copy_loop.simps) auto
  next
    case True
    define fr1 where "fr1 = frame[idx := rv ! k]"
    have kb: "k < length rv" using True "1.prems" by auto
    have step: "copy_loop rv k idx frame = copy_loop rv (k + 1) (idx + 1) fr1"
      using True kb by (subst copy_loop.simps) (simp add: fr1_def)
    have l1: "length fr1 = length frame" by (simp add: fr1_def)
    have "k + 1 + (length fr1 - (idx + 1)) \<le> length rv" using "1.prems" True l1 by simp
    from "1.IH" [OF True kb, folded fr1_def, OF this]
    obtain frame' where f: "copy_loop rv (k + 1) (idx + 1) fr1 = Inr frame'"
      "length frame' = length fr1"
      "\<And>j. idx + 1 \<le> j \<Longrightarrow> j < length fr1 \<Longrightarrow> frame' ! j = rv ! (k + 1 + (j - (idx + 1)))"
      "\<And>j. j < idx + 1 \<Longrightarrow> frame' ! j = fr1 ! j"
      by blast
    have cp: "frame' ! j = rv ! (k + (j - idx))" if j: "idx \<le> j" "j < length frame" for j
    proof (cases "j = idx")
      case False
      with j have "idx + 1 \<le> j" "j < length fr1" using l1 by simp_all
      from f(3) [OF this] have g: "frame' ! j = rv ! (k + 1 + (j - (idx + 1)))" .
      have eq2: "k + 1 + (j - (idx + 1)) = k + (j - idx)" using \<open>idx + 1 \<le> j\<close> by arith
      show ?thesis using g unfolding eq2 .
    next
      case eq: True
      have "frame' ! idx = fr1 ! idx" by (rule f(4)) simp
      with True show ?thesis by (simp add: eq fr1_def)
    qed
    have keep: "frame' ! j = frame ! j" if "j < idx" for j
      using f(4) [of j] that by (simp add: fr1_def)
    show ?thesis unfolding step using f(1,2) l1 cp keep by auto
  qed
qed

text \<open>Engine mode (\<open>doTapRotation\<close>), three phases per pixel, a frame of the ROI's size
  and all six images in the buffer: every output triple is the cyclically shifted sum of
  the three permutations, \<open>out_A = A0 + B1 + C2\<close>, \<open>out_B = B0 + C1 + A2\<close>,
  \<open>out_C = C0 + A1 + B2\<close>.\<close>

lemma tapRotation_engine:
  fixes roiVector :: "'a::plus list"
  assumes sz: "length frame = 3 * (h * w)" "(5 + freqIdx) * (3 * (h * w)) \<le> length roiVector"
    "freqIdx \<le> 1"
  defines "img \<equiv> \<lambda>i. (2 * i + freqIdx) * (3 * (h * w))"
  shows "\<exists>frame'. tapRotation roiVector frame freqIdx (h, w) 3 True = Inr frame' \<and>
           length frame' = length frame \<and>
           (\<forall>j < h * w.
              frame' ! (3 * j) = roiVector ! (img 0 + 3 * j) + roiVector ! (img 1 + 3 * j + 1)
                                   + roiVector ! (img 2 + 3 * j + 2) \<and>
              frame' ! (3 * j + 1) = roiVector ! (img 0 + 3 * j + 1) + roiVector ! (img 1 + 3 * j + 2)
                                   + roiVector ! (img 2 + 3 * j) \<and>
              frame' ! (3 * j + 2) = roiVector ! (img 0 + 3 * j + 2) + roiVector ! (img 1 + 3 * j)
                                   + roiVector ! (img 2 + 3 * j + 1))"
proof -
  define S where "S = 3 * (h * w)"
  have st: "w * 3 * h = S" by (simp add: S_def)
  have big: "\<not> length roiVector < (4 + freqIdx) * S + h * w"
    using sz(2) by (simp add: S_def algebra_simps)
  have b: "freqIdx * S + 3 * (h * w) \<le> length roiVector"
    "(2 + freqIdx) * S + 3 * (h * w) \<le> length roiVector"
    "(4 + freqIdx) * S + 3 * (h * w) \<le> length roiVector" "3 * (h * w) \<le> length frame"
    using sz(1,2) by (simp_all add: S_def algebra_simps)
  have e: "tapRotation roiVector frame freqIdx (h, w) 3 True =
      rotate_loop roiVector (freqIdx * S) ((2 + freqIdx) * S) ((4 + freqIdx) * S) (h * w) 0 frame"
    using big by (simp add: tapRotation_def sum_taps_def Let_def st)
  from rotate_loop_spec [OF b, of 0] show ?thesis
    unfolding e img_def S_def [symmetric] by (auto simp: algebra_simps)
qed

text \<open>Hardware mode on a buffer that holds the two reduced images and less than what the
  summation code asks for: the image of the frequency is copied through.\<close>

lemma tapRotation_hardware_exact:
  fixes roiVector :: "'a::plus list"
  assumes sz: "length frame = 3 * (h * w)" "(freqIdx + 1) * (3 * (h * w)) \<le> length roiVector"
    "length roiVector < (4 + freqIdx) * (3 * (h * w)) + h * w"
  shows "\<exists>frame'. tapRotation roiVector frame freqIdx (h, w) 3 False = Inr frame' \<and>
           length frame' = length frame \<and>
           (\<forall>j < length frame. frame' ! j = roiVector ! (freqIdx * (3 * (h * w)) + j))"
proof -
  define S where "S = 3 * (h * w)"
  have st: "w * 3 * h = S" by (simp add: S_def)
  have fit: "\<not> freqIdx * S + length frame > length roiVector"
    using sz(1,2) by (simp add: S_def algebra_simps)
  have "freqIdx * S + (length frame - 0) \<le> length roiVector" using fit by simp
  from copy_loop_spec [OF this] obtain frame' where
    c: "copy_loop roiVector (freqIdx * S) 0 frame = Inr frame'" "length frame' = length frame"
    "\<And>j. j < length frame \<Longrightarrow> frame' ! j = roiVector ! (freqIdx * S + j)"
    by auto
  have "tapRotation roiVector frame freqIdx (h, w) 3 False = Inr frame'"
    using fit c(1) sz(3) by (simp add: tapRotation_def sum_taps_def Let_def st S_def)
  with c(2,3) show ?thesis unfolding S_def by blast
qed

text \<open>
  Claim C5 says that with reduce-mode = hardware the first permutation is copied through
  unchanged. The branch of the source that does the copy has no \<open>return\<close>, so the
  summation code runs after it whenever the buffer holds at least
  \<open>(4 + freqIdx) * roiImageStride + rows * columns\<close> floats, and overwrites the copy
  with sums over data beyond the reduced ROI. On the one-pixel ROI (10, 20, 30) in an
  18-float buffer the frame is (312, 123, 231) where the claim expects (10, 20, 30); the
  same ROI in a buffer of its own size is copied through.
\<close>

theorem tapRotation_hardware_overwritten:
  "tapRotation hardware_roi_in_large_buffer [0, 0, 0] 0 (1, 1) 3 False = Inr [312, 123, 231] \<and>
   take 3 hardware_roi_in_large_buffer = [10, 20, 30] \<and>
   tapRotation (take 6 hardware_roi_in_large_buffer) [0, 0, 0] 0 (1, 1) 3 False = Inr [10, 20, 30]"
  by code_simp

section \<open>Theorems: range output\<close>

lemma collect_Inr_iff:
  "collect rs = Inr out \<longleftrightarrow> length out = length rs \<and> (\<forall>i < length rs. rs ! i = Inr (out ! i))"
proof (induction rs arbitrary: out rule: collect.induct)
  case 1
  then show ?case by auto
next
  case (2 e rs)
  then show ?case by auto
next
  case (3 x rs)
  show ?case
  proof (cases out)
    case Nil
    then show ?thesis by (auto split: sum.splits)
  next
    case (Cons y ys)
    have "collect (Inr x # rs) = Inr (y # ys) \<longleftrightarrow> x = y \<and> collect rs = Inr ys"
      by (auto split: sum.splits)
    also have "\<dots> \<longleftrightarrow> x = y \<and> length ys = length rs \<and> (\<forall>i < length rs. rs ! i = Inr (ys ! i))"
      using "3.IH" [of ys] by simp
    also have "\<dots> \<longleftrightarrow> length (y # ys) = length (Inr x # rs) \<and>
        (\<forall>i < length (Inr x # rs). (Inr x # rs) ! i = Inr ((y # ys) ! i))"
      by (auto simp: nth_Cons split: nat.splits)
    finally show ?thesis using Cons by simp
  qed
qed

lemma collect_total:
  "(\<forall>r \<in> set rs. \<exists>y. r = Inr y) \<Longrightarrow> \<exists>out. collect rs = Inr out"
proof (induction rs rule: collect.induct)
  case 1
  then show ?case by simp
next
  case (2 e rs)
  then show ?case by auto
next
  case (3 x rs)
  then obtain out where "collect rs = Inr out" by auto
  then show ?case by simp
qed

lemma getRange_Inr_iff:
  "getRange fR fM pm fS st sp stride imSize dis thr off rl mur = Inr out \<longleftrightarrow>
     length out = length fR \<and>
     (\<forall>idx < length fR.
        getRange_at fR fM pm fS st sp stride imSize dis thr off rl mur idx = Inr (out ! idx))"
  by (simp add: getRange_def collect_Inr_iff)

lemma fmod_range:
  assumes "0 \<le> x" "0 < y"
  shows "0 \<le> fmod x y" "fmod x y < y"
proof -
  have q: "0 \<le> x / y" using assms by simp
  have lo: "of_int \<lfloor>x / y\<rfloor> * y \<le> x" using floor_divide_lower [OF assms(2), of x] .
  have hi: "x < (of_int \<lfloor>x / y\<rfloor> + 1) * y" using floor_divide_upper [OF assms(2), of x] .
  have f: "fmod x y = x - y * of_int \<lfloor>x / y\<rfloor>" using q by (simp add: fmod_def trunc_def)
  show "0 \<le> fmod x y" using lo by (simp add: f mult.commute)
  show "fmod x y < y" using hi by (simp add: f algebra_simps)
qed

lemma adjust_range_bounds:
  assumes "0 < mur"
  shows "0 \<le> adjust_range mur off r" "adjust_range mur off r < mur"
  using fmod_range [OF _ assms] by (simp_all add: adjust_range_def Let_def)

lemma roundf_nonneg:
  assumes "0 \<le> y"
  shows "0 \<le> roundf y" "of_int (roundf y) \<le> y + 1 / 2" "y - 1 / 2 < of_int (roundf y)"
proof -
  have r: "roundf y = \<lfloor>y + 1 / 2\<rfloor>" using assms by (simp add: roundf_def)
  show "0 \<le> roundf y" unfolding r using assms by simp
  show "of_int (roundf y) \<le> y + 1 / 2" unfolding r by (rule of_int_floor_le)
  show "y - 1 / 2 < of_int (roundf y)" unfolding r by linarith
qed

lemma to_uint16_Inr:
  assumes "to_uint16 v = Inr w"
  shows "0 \<le> v" "v \<le> 65535" "int (unat w) = v"
proof -
  from assms have b: "0 \<le> v" "v \<le> 65535" and w: "w = word_of_int v"
    by (auto simp: to_uint16_def split: if_splits)
  show "0 \<le> v" "v \<le> 65535" by fact+
  have "uint w = v" unfolding w using b by (simp add: uint_word_of_int take_bit_eq_mod)
  then show "int (unat w) = v" by simp
qed

lemma roundf_zero: "roundf 0 = 0"
  by (simp add: roundf_def floor_eq_iff)

lemma getRange_at_value:
  assumes "getRange_at fR fM pm fS st sp stride imSize dis thr off rl mur idx = Inr v"
  shows "to_uint16 (roundf (1024 *
           (if \<not> dis \<and> (fM ! idx > 1 / 2 \<or> fS ! idx < 2 * thr \<or>
                (pixelMaskIdx_of st sp stride (snd imSize) idx < length pm \<and>
                 pm ! pixelMaskIdx_of st sp stride (snd imSize) idx = 0) \<or>
                fR ! idx > rl)
            then 0 else fR ! idx))) = Inr v"
  using assms
  by (auto simp: getRange_at_def Let_def RANGE_NETWORK_SCALE_def split: if_splits)

lemma getRange_at_total:
  assumes "snd imSize \<noteq> 0" "idx < length fM" "idx < length fS" "0 \<le> fR ! idx"
    "1024 * fR ! idx \<le> 65535"
  shows "\<exists>v. getRange_at fR fM pm fS st sp stride imSize dis thr off rl mur idx = Inr v"
proof -
  have z: "to_uint16 (roundf 0) = Inr 0" by (simp add: to_uint16_def roundf_zero)
  have "0 \<le> roundf (1024 * fR ! idx)" using assms(4) by (intro roundf_nonneg(1)) simp
  moreover have "roundf (1024 * fR ! idx) \<le> 65535"
  proof -
    have "1024 * fR ! idx + 1 / 2 < 65536" using assms(5) by simp
    then have "\<lfloor>1024 * fR ! idx + 1 / 2\<rfloor> < 65536" by (simp add: floor_less_iff)
    then show ?thesis using assms(4) by (simp add: roundf_def)
  qed
  ultimately have "\<exists>v. to_uint16 (roundf (1024 * fR ! idx)) = Inr v"
    by (simp add: to_uint16_def)
  with z assms(1,2,3) show ?thesis
    by (auto simp: getRange_at_def Let_def RANGE_NETWORK_SCALE_def)
qed

lemma getRange_total:
  assumes "snd imSize \<noteq> 0" "length fR \<le> length fM" "length fR \<le> length fS"
    "\<forall>r \<in> set fR. 0 \<le> r \<and> 1024 * r \<le> 65535"
  shows "\<exists>out. getRange fR fM pm fS st sp stride imSize dis thr off rl mur = Inr out"
proof -
  have "\<exists>v. getRange_at fR fM pm fS st sp stride imSize dis thr off rl mur idx = Inr v"
    if "idx < length fR" for idx
    using assms that by (intro getRange_at_total) auto
  then have "\<forall>r \<in> set (map (getRange_at fR fM pm fS st sp stride imSize dis thr off rl mur)
      [0..<length fR]). \<exists>y. r = Inr y" by auto
  from collect_total [OF this] show ?thesis by (simp add: getRange_def)
qed

lemma decoded_of_to_uint16:
  assumes "to_uint16 (roundf (1024 * x)) = Inr w" "0 \<le> x"
  shows "0 \<le> decoded_range w" "decoded_range w \<le> x + 1 / 2048" "x - 1 / 2048 < decoded_range w"
proof -
  have u: "int (unat w) = roundf (1024 * x)" by (rule to_uint16_Inr(3) [OF assms(1)])
  have d: "decoded_range w = of_int (roundf (1024 * x)) / 1024"
    unfolding decoded_range_def u [symmetric] by simp
  have nn: "0 \<le> 1024 * x" using assms(2) by simp
  show "0 \<le> decoded_range w" unfolding d using roundf_nonneg(1) [OF nn] by simp
  show "decoded_range w \<le> x + 1 / 2048" unfolding d using roundf_nonneg(2) [OF nn]
    by (simp add: field_simps)
  show "x - 1 / 2048 < decoded_range w" unfolding d using roundf_nonneg(3) [OF nn]
    by (simp add: field_simps)
qed

lemma mur_87_value: "mur_87 = 1650365 / 65536" by code_simp
lemma rangeLimit_87: "rangeLimit_of True 5952381 = 330073 / 16384" by code_simp
lemma rangeLimit_off: "rangeLimit_of False 5952381 = FLT_MAX" by (simp add: rangeLimit_of_def)
lemma adjust_87: "adjust_range (1650365 / 65536) 0 (103147 / 4096) = 103147 / 4096" by code_simp

lemma floor_half_rat: "\<lfloor>1 / 2 :: rat\<rfloor> = 0"
  by (simp add: floor_eq_iff)

lemmas range_eval = published_ranges_def getRange_def getRange_at_def pixelMaskIdx_of_def
  to_uint16_def roundf_def RANGE_NETWORK_SCALE_def floor_rat_numeral decoded_range_def
  floor_half_rat

text \<open>
  Claim C2. For every pixel of the output of \<open>getRange\<close>: with range masking enabled
  the range is replaced by 0, and 0 is emitted, exactly when the min-max mask marks the
  pixel (mask value above 0.5), or its summed SNR is below twice the threshold, or the
  pixel mask has an entry for the pixel and the entry is 0, or the range exceeds the
  range limit; otherwise, and always when range masking is disabled, the emitted value is
  the pixel's own range in counts of 1/1024 m (so a pixel that is not invalidated emits 0
  only when its own range rounds to 0 counts). The function returns for every input whose
  ranges fit the 16-bit output.
\<close>

theorem getRange_masking:
  "(\<forall>out idx. getRange fR fM pm fS st sp stride imSize dis thr off rl mur = Inr out \<and> idx < length fR \<longrightarrow>
      length out = length fR \<and>
      (let pmIdx = pixelMaskIdx_of st sp stride (snd imSize) idx;
           invalid = (fM ! idx > 1 / 2 \<or> fS ! idx < 2 * thr \<or>
                      (pmIdx < length pm \<and> pm ! pmIdx = 0) \<or> fR ! idx > rl)
       in (\<not> dis \<and> invalid \<longrightarrow> out ! idx = 0) \<and>
          (\<not> dis \<and> \<not> invalid \<longrightarrow> to_uint16 (roundf (1024 * fR ! idx)) = Inr (out ! idx)) \<and>
          (dis \<longrightarrow> to_uint16 (roundf (1024 * fR ! idx)) = Inr (out ! idx)))) \<and>
   (snd imSize \<noteq> 0 \<and> length fR \<le> length fM \<and> length fR \<le> length fS \<and>
    (\<forall>r \<in> set fR. 0 \<le> r \<and> 1024 * r \<le> 65535) \<longrightarrow>
      (\<exists>out. getRange fR fM pm fS st sp stride imSize dis thr off rl mur = Inr out))"
proof (intro conjI allI impI)
  fix out idx
  assume a: "getRange fR fM pm fS st sp stride imSize dis thr off rl mur = Inr out \<and> idx < length fR"
  then have l: "length out = length fR"
    and g: "getRange_at fR fM pm fS st sp stride imSize dis thr off rl mur idx = Inr (out ! idx)"
    by (simp_all add: getRange_Inr_iff)
  show "length out = length fR" by fact
  have z: "to_uint16 (roundf 0) = Inr w \<Longrightarrow> w = 0" for w
    by (auto simp: to_uint16_def roundf_zero split: if_splits)
  from getRange_at_value [OF g]
  show "let pmIdx = pixelMaskIdx_of st sp stride (snd imSize) idx;
           invalid = (fM ! idx > 1 / 2 \<or> fS ! idx < 2 * thr \<or>
                      (pmIdx < length pm \<and> pm ! pmIdx = 0) \<or> fR ! idx > rl)
       in (\<not> dis \<and> invalid \<longrightarrow> out ! idx = 0) \<and>
          (\<not> dis \<and> \<not> invalid \<longrightarrow> to_uint16 (roundf (1024 * fR ! idx)) = Inr (out ! idx)) \<and>
          (dis \<longrightarrow> to_uint16 (roundf (1024 * fR ! idx)) = Inr (out ! idx))"
    unfolding Let_def by (auto split: if_splits dest: z)
next
  assume a: "snd imSize \<noteq> 0 \<and> length fR \<le> length fM \<and> length fR \<le> length fS \<and>
    (\<forall>r \<in> set fR. 0 \<le> r \<and> 1024 * r \<le> 65535)"
  then show "\<exists>out. getRange fR fM pm fS st sp stride imSize dis thr off rl mur = Inr out"
    by (intro getRange_total) simp_all
qed

theorem getRange_masking_witness:
  "getRange [2, 30, 3, 4] [0, 0, 0, 1] [1] [100, 100, 1, 100] (0, 0) (1, 1) 640 (1, 4) False 1 0
      (330073 / 16384) (1650365 / 65536) = Inr [2048, 0, 0, 0] \<and>
   getRange [2, 30, 3, 4] [0, 0, 0, 1] [1] [100, 100, 1, 100] (0, 0) (1, 1) 640 (1, 4) True 1 0
      (330073 / 16384) (1650365 / 65536) = Inr [2048, 30720, 3072, 4096] \<and>
   (30 :: rat) > 330073 / 16384 \<and> [2048, 0, 0, 0 :: 16 word] ! 1 = 0 \<and>
   to_uint16 (roundf (1024 * 30)) = Inr ([2048, 30720, 3072, 4096] ! 1)"
proof -
  have e1: "getRange [2, 30, 3, 4] [0, 0, 0, 1] [1] [100, 100, 1, 100] (0, 0) (1, 1) 640 (1, 4) False 1 0
      (330073 / 16384) (1650365 / 65536) = Inr [2048, 0, 0, 0]"
    by (simp add: range_eval upt_rec)
  have e2: "getRange [2, 30, 3, 4] [0, 0, 0, 1] [1] [100, 100, 1, 100] (0, 0) (1, 1) 640 (1, 4) True 1 0
      (330073 / 16384) (1650365 / 65536) = Inr [2048, 30720, 3072, 4096]"
    by (simp add: range_eval upt_rec)
  have a: "[2048, 0, 0, 0 :: 16 word] ! 1 = 0 \<and> (30 :: rat) > 330073 / 16384"
    using getRange_masking [of "[2, 30, 3, 4]" "[0, 0, 0, 1]" "[1]" "[100, 100, 1, 100]" "(0, 0)" "(1, 1)"
      640 "(1, 4)" False 1 0 "330073 / 16384" "1650365 / 65536", THEN conjunct1, rule_format,
      of "[2048, 0, 0, 0]" 1] e1
    by (simp add: Let_def)
  have b: "to_uint16 (roundf (1024 * 30)) = Inr ([2048, 30720, 3072, 4096] ! 1)"
    using getRange_masking [of "[2, 30, 3, 4]" "[0, 0, 0, 1]" "[1]" "[100, 100, 1, 100]" "(0, 0)" "(1, 1)"
      640 "(1, 4)" True 1 0 "330073 / 16384" "1650365 / 65536", THEN conjunct1, rule_format,
      of "[2048, 30720, 3072, 4096]" 1] e2
    by (simp add: Let_def)
  from e1 e2 a b show ?thesis by (intro conjI) simp_all
qed

text \<open>
  Claim C1, as stated, fails. The published value is the range rounded to the nearest
  count, so a range just below the maximum unambiguous range decodes to a value above it:
  for the modulation pair (8, 7), \<open>MUR = 1650365/65536\<close> (about 25.18257 m), the range
  \<open>103147/4096\<close> (about 25.18237 m) is published as 25787 counts, which decode to
  about 25.18262 m. And the range limit is applied by the masking code only: with range
  masking disabled and the limit enabled the same pixel is published unchanged, above
  \<open>0.8 MUR\<close> and not 0.
\<close>

theorem published_range_counterexample:
  "published_ranges [103147 / 4096] [0] [1] [100] (0, 0) (1, 1) (1, 640) (1, 1) False 0 0
      (rangeLimit_of False 5952381) mur_87 = Inr [25787] \<and>
   published_ranges [103147 / 4096] [0] [1] [100] (0, 0) (1, 1) (1, 640) (1, 1) True 0 0
      (rangeLimit_of True 5952381) mur_87 = Inr [25787] \<and>
   \<not> decoded_range 25787 < mur_87 \<and>
   \<not> (decoded_range 25787 \<le> 8 / 10 * mur_87 \<or> decoded_range 25787 = 0)"
  unfolding mur_87_value rangeLimit_87 rangeLimit_off
  by (simp add: range_eval adjust_87 FLT_MAX_def)

text \<open>
  Claim C1, amended. For a maximum unambiguous range \<open>mur\<close> with
  \<open>0 < mur\<close> and \<open>1024 mur \<le> 65535\<close> (every supported modulation pair: the
  largest is about 40.5 m), every published pixel decodes to a range \<open>r\<close> with
  \<open>0 \<le> r < mur + 1/2048\<close>: the range before rounding lies in \<open>[0, mur)\<close>. When
  range masking is not disabled, \<open>r = 0\<close> or \<open>r \<le> rangeLimit + 1/2048\<close>, where
  \<open>rangeLimit\<close> is the binary32 product \<open>0.8F * mur\<close> when the metadata enables the
  limit. The step returns whenever the mask and SNR images cover the range image.
\<close>

theorem published_range_bounds:
  assumes "0 < mur" "1024 * mur \<le> 65535"
  shows "(\<forall>out idx. published_ranges fR fM pm fS fovStart fovStep fovSize imSize dis thr off rl mur = Inr out
            \<and> idx < length fR \<longrightarrow>
            0 \<le> decoded_range (out ! idx) \<and> decoded_range (out ! idx) < mur + 1 / 2048 \<and>
            (\<not> dis \<longrightarrow> out ! idx = 0 \<or> decoded_range (out ! idx) \<le> rl + 1 / 2048)) \<and>
         (snd imSize \<noteq> 0 \<and> length fR \<le> length fM \<and> length fR \<le> length fS \<longrightarrow>
            (\<exists>out. published_ranges fR fM pm fS fovStart fovStep fovSize imSize dis thr off rl mur = Inr out))"
proof (intro conjI allI impI)
  fix out idx
  assume a: "published_ranges fR fM pm fS fovStart fovStep fovSize imSize dis thr off rl mur = Inr out
            \<and> idx < length fR"
  define x where "x = adjust_range mur off (fR ! idx)"
  have xb: "0 \<le> x" "x < mur" unfolding x_def by (rule adjust_range_bounds [OF assms(1)])+
  define x' where "x' = (if \<not> dis \<and> (fM ! idx > 1 / 2 \<or> fS ! idx < 2 * thr \<or>
                (pixelMaskIdx_of fovStart fovStep (snd fovSize) (snd imSize) idx < length pm \<and>
                 pm ! pixelMaskIdx_of fovStart fovStep (snd fovSize) (snd imSize) idx = 0) \<or>
                x > rl) then 0 else x)"
  from a have g: "getRange_at (map (adjust_range mur off) fR) fM pm fS fovStart fovStep (snd fovSize)
      imSize dis thr off rl mur idx = Inr (out ! idx)"
    by (simp add: published_ranges_def getRange_Inr_iff)
  have nm: "map (adjust_range mur off) fR ! idx = x" using a by (simp add: x_def)
  from getRange_at_value [OF g] have v: "to_uint16 (roundf (1024 * x')) = Inr (out ! idx)"
    unfolding nm x'_def .
  have x'b: "0 \<le> x'" "x' \<le> x" using xb by (simp_all add: x'_def)
  note d = decoded_of_to_uint16 [OF v x'b(1)]
  show "0 \<le> decoded_range (out ! idx)" by (rule d(1))
  show "decoded_range (out ! idx) < mur + 1 / 2048" using d(2) x'b(2) xb(2) by linarith
  show "out ! idx = 0 \<or> decoded_range (out ! idx) \<le> rl + 1 / 2048" if nd: "\<not> dis"
  proof (cases "x' = 0")
    case True
    with v have "out ! idx = 0" by (auto simp: to_uint16_def roundf_zero)
    then show ?thesis by simp
  next
    case False
    then have "x' = x" "\<not> x > rl" using nd by (auto simp: x'_def split: if_splits)
    with d(2) show ?thesis by simp
  qed
next
  assume a: "snd imSize \<noteq> 0 \<and> length fR \<le> length fM \<and> length fR \<le> length fS"
  have "0 \<le> r \<and> 1024 * r \<le> 65535" if "r \<in> set (map (adjust_range mur off) fR)" for r
  proof -
    from that obtain r0 where "r = adjust_range mur off r0" by auto
    with adjust_range_bounds [OF assms(1), of off r0] assms(2) show ?thesis by simp
  qed
  then have "\<forall>r \<in> set (map (adjust_range mur off) fR). 0 \<le> r \<and> 1024 * r \<le> 65535" by blast
  with a show "\<exists>out. published_ranges fR fM pm fS fovStart fovStep fovSize imSize dis thr off rl mur = Inr out"
    unfolding published_ranges_def by (intro getRange_total) simp_all
qed

theorem published_range_bounds_witness:
  "0 < mur_87 \<and> 1024 * mur_87 \<le> 65535 \<and>
   published_ranges [103147 / 4096, 330073 / 16384, 30, - 3] [0, 0, 0, 0] [1] [100, 100, 100, 100]
      (0, 0) (1, 1) (1, 640) (1, 4) False 0 0 (rangeLimit_of True 5952381) mur_87
     = Inr [0, 20630, 4933, 0] \<and>
   0 \<le> decoded_range 20630 \<and> decoded_range 20630 < mur_87 + 1 / 2048 \<and>
   decoded_range 20630 \<le> rangeLimit_of True 5952381 + 1 / 2048"
proof -
  have m: "0 < mur_87" "1024 * mur_87 \<le> 65535" by (simp_all add: mur_87_value)
  have a: "adjust_range (1650365 / 65536) 0 (103147 / 4096) = 103147 / 4096"
    "adjust_range (1650365 / 65536) 0 (330073 / 16384) = 330073 / 16384"
    "adjust_range (1650365 / 65536) 0 30 = 315715 / 65536"
    "adjust_range (1650365 / 65536) 0 (- 3) = 0"
    by code_simp+
  have e: "published_ranges [103147 / 4096, 330073 / 16384, 30, - 3] [0, 0, 0, 0] [1] [100, 100, 100, 100]
      (0, 0) (1, 1) (1, 640) (1, 4) False 0 0 (rangeLimit_of True 5952381) mur_87
     = Inr [0, 20630, 4933, 0]"
    unfolding mur_87_value rangeLimit_87 by (simp add: range_eval a upt_rec)
  have "0 \<le> decoded_range ([0, 20630, 4933, 0] ! 1) \<and>
        decoded_range ([0, 20630, 4933, 0] ! 1) < mur_87 + 1 / 2048 \<and>
        decoded_range ([0, 20630, 4933, 0] ! 1) \<le> rangeLimit_of True 5952381 + 1 / 2048"
    using published_range_bounds [OF m, of "[103147 / 4096, 330073 / 16384, 30, - 3]" "[0, 0, 0, 0]" "[1]"
      "[100, 100, 100, 100]" "(0, 0)" "(1, 1)" "(1, 640)" "(1, 4)" False 0 0
      "rangeLimit_of True 5952381", THEN conjunct1, rule_format, of "[0, 20630, 4933, 0]" 1] e
    by simp
  with m e show ?thesis by (intro conjI) simp_all
qed

section \<open>Theorems: nearest-neighbour filter\<close>

lemma count_row_spec:
  "winEnd \<le> length ranges \<Longrightarrow>
   count_row val tol ranges winIdx winEnd n =
     Inr (n + length (filter (\<lambda>k. is_neighbor val tol (ranges ! k)) [winIdx..<winEnd]))"
proof (induction val tol ranges winIdx winEnd n rule: count_row.induct)
  case (1 val tol ranges winIdx winEnd n)
  show ?case
  proof (cases "winIdx < winEnd")
    case True
    with 1(2) have l: "winIdx < length ranges" by simp
    from True have u: "[winIdx..<winEnd] = winIdx # [winIdx + 1..<winEnd]"
      by (simp add: upt_conv_Cons)
    note ih = 1(1) [OF True l 1(2)]
    show ?thesis
      apply (subst count_row.simps)
      using ih by (simp add: True l u)
  next
    case False
    then show ?thesis by (subst count_row.simps) simp
  qed
qed

lemma window_entries_step:
  "rowIdx < winSize \<Longrightarrow>
   concat (map (\<lambda>r. [winStart + r * stride ..< winStart + r * stride + winSize]) [0..<winSize - rowIdx])
   = [winStart..<winStart + winSize] @
     concat (map (\<lambda>r. [winStart + stride + r * stride ..< winStart + stride + r * stride + winSize])
       [0..<winSize - (rowIdx + 1)])"
proof -
  assume a: "rowIdx < winSize"
  then have "[0..<winSize - rowIdx] = 0 # map Suc [0..<winSize - (rowIdx + 1)]"
    by (simp add: upt_conv_Cons map_Suc_upt Suc_diff_Suc)
  then show ?thesis by (simp add: comp_def add.assoc)
qed

lemma count_rows_spec:
  "(rowIdx < winSize \<longrightarrow> winStart + (winSize - 1 - rowIdx) * stride + winSize \<le> length ranges) \<Longrightarrow>
   count_rows val tol ranges winSize stride rowIdx winStart n =
     Inr (n + length (filter (\<lambda>k. is_neighbor val tol (ranges ! k))
        (concat (map (\<lambda>r. [winStart + r * stride ..< winStart + r * stride + winSize])
           [0..<winSize - rowIdx]))))"
proof (induction val tol ranges winSize stride rowIdx winStart n rule: count_rows.induct)
  case (1 val tol ranges winSize stride rowIdx winStart n)
  show ?case
  proof (cases "rowIdx < winSize")
    case True
    with 1(2) have b: "winStart + (winSize - 1 - rowIdx) * stride + winSize \<le> length ranges" by simp
    then have r: "winStart + winSize \<le> length ranges" by simp
    have nb: "rowIdx + 1 < winSize \<longrightarrow>
        winStart + stride + (winSize - 1 - (rowIdx + 1)) * stride + winSize \<le> length ranges"
    proof
      assume "rowIdx + 1 < winSize"
      then have "winSize - 1 - rowIdx = Suc (winSize - 1 - (rowIdx + 1))" by simp
      with b show "winStart + stride + (winSize - 1 - (rowIdx + 1)) * stride + winSize \<le> length ranges"
        by simp
    qed
    note row = count_row_spec [OF r, of val tol winStart n]
    note ih = 1(1) [OF True row nb]
    show ?thesis
      apply (subst count_rows.simps)
      using ih by (simp add: True row window_entries_step [OF True])
  next
    case False
    then show ?thesis by (subst count_rows.simps) simp
  qed
qed

lemma countNeighbors_spec:
  assumes "0 < winSize" "startIdx + (winSize - 1) * stride + winSize \<le> length ranges"
  shows "countNeighbors val tol minc ranges startIdx winSize stride =
     Inr (if window_matches ranges val tol startIdx winSize stride < minc then 0 else val)"
  using count_rows_spec [of 0 winSize startIdx stride ranges val tol 0] assms
  by (simp add: countNeighbors_def window_matches_def window_entries_def)

lemma filter_row_spec:
  "imw - xIdx = k \<Longrightarrow> length out = length franges \<Longrightarrow> 0 < winSize \<Longrightarrow>
   winIdx + (winSize div 2 + stride * (winSize div 2)) = pixIdx \<Longrightarrow>
   (0 < k \<longrightarrow> pixIdx + k \<le> length franges \<and>
      winIdx + (k - 1) + (winSize - 1) * stride + winSize \<le> length franges) \<Longrightarrow>
   \<exists>out'. filter_row franges (f32 (1 / 16)) minc winSize stride imw xIdx pixIdx winIdx out = Inr out' \<and>
     length out' = length out \<and>
     (\<forall>i. out' ! i = (if pixIdx \<le> i \<and> i < pixIdx + k
                      then filtered_pixel franges minc winSize stride i else out ! i))"
proof (induction k arbitrary: xIdx pixIdx winIdx out)
  case 0
  then have "\<not> xIdx < imw" by simp
  then show ?case by (subst filter_row.simps) simp
next
  case (Suc k)
  from Suc.prems(1) have x: "xIdx < imw" and k: "imw - (xIdx + 1) = k" by simp_all
  from Suc.prems(5) have p: "pixIdx < length franges"
    and w: "winIdx + (winSize - 1) * stride + winSize \<le> length franges" by simp_all
  define v where "v = filtered_pixel franges minc winSize stride pixIdx"
  from Suc.prems(4) have ws: "pixIdx - (winSize div 2 + stride * (winSize div 2)) = winIdx" by simp
  have cn: "countNeighbors (franges ! pixIdx) (range_tolerance (franges ! pixIdx)) minc franges winIdx
      winSize stride = Inr v"
    unfolding v_def filtered_pixel_def Let_def ws
    by (rule countNeighbors_spec [OF Suc.prems(3) w])
  have l: "length (out[pixIdx := v]) = length franges" using Suc.prems(2) by simp
  have o: "winIdx + 1 + (winSize div 2 + stride * (winSize div 2)) = pixIdx + 1"
    using Suc.prems(4) by simp
  have b: "0 < k \<longrightarrow> pixIdx + 1 + k \<le> length franges \<and>
      winIdx + 1 + (k - 1) + (winSize - 1) * stride + winSize \<le> length franges"
    using Suc.prems(5) by auto
  from Suc.IH [OF k l Suc.prems(3) o b]
  obtain out' where r: "filter_row franges (f32 (1 / 16)) minc winSize stride imw (xIdx + 1) (pixIdx + 1)
        (winIdx + 1) (out[pixIdx := v]) = Inr out'"
    and lo: "length out' = length (out[pixIdx := v])"
    and n: "\<forall>i. out' ! i = (if pixIdx + 1 \<le> i \<and> i < pixIdx + 1 + k
                      then filtered_pixel franges minc winSize stride i else out[pixIdx := v] ! i)"
    by blast
  have po: "pixIdx < length out" using p Suc.prems(2) by simp
  have e: "filter_row franges (f32 (1 / 16)) minc winSize stride imw xIdx pixIdx winIdx out = Inr out'"
    apply (subst filter_row.simps)
    using r cn by (simp add: x p po range_tolerance_def Let_def)
  have "out' ! i = (if pixIdx \<le> i \<and> i < pixIdx + Suc k
                      then filtered_pixel franges minc winSize stride i else out ! i)" for i
  proof (cases "i = pixIdx")
    case True
    with n po show ?thesis by (simp add: v_def)
  next
    case False
    with n [rule_format, of i] show ?thesis by (simp; arith)
  qed
  with e lo show ?case by simp
qed

lemma filter_rows_spec:
  "imh - yIdx = k \<Longrightarrow> length out = length franges \<Longrightarrow> 0 < winSize \<Longrightarrow> 0 < imw \<Longrightarrow>
   winStart + (winSize div 2 + stride * (winSize div 2)) = colStart \<Longrightarrow>
   (0 < k \<longrightarrow> colStart + (k - 1) * stride + imw \<le> length franges \<and>
      winStart + (k - 1) * stride + (imw - 1) + (winSize - 1) * stride + winSize \<le> length franges) \<Longrightarrow>
   \<exists>out'. filter_rows franges (f32 (1 / 16)) minc winSize stride imw imh yIdx colStart winStart out
       = Inr out' \<and>
     length out' = length out \<and>
     (\<forall>i. out' ! i = (if \<exists>yy<k. colStart + yy * stride \<le> i \<and> i < colStart + yy * stride + imw
                      then filtered_pixel franges minc winSize stride i else out ! i))"
proof (induction k arbitrary: yIdx colStart winStart out)
  case 0
  then have "\<not> yIdx < imh" by simp
  then show ?case by (subst filter_rows.simps) simp
next
  case (Suc k)
  from Suc.prems(1) have y: "yIdx < imh" and k: "imh - (yIdx + 1) = k" by simp_all
  from Suc.prems(6) have c: "colStart + k * stride + imw \<le> length franges"
    and w: "winStart + k * stride + (imw - 1) + (winSize - 1) * stride + winSize \<le> length franges"
    by simp_all
  have rb: "0 < imw \<longrightarrow> colStart + imw \<le> length franges \<and>
      winStart + (imw - 1) + (winSize - 1) * stride + winSize \<le> length franges"
  proof (intro impI conjI)
    from c show "colStart + imw \<le> length franges" by linarith
    from w show "winStart + (imw - 1) + (winSize - 1) * stride + winSize \<le> length franges"
      by linarith
  qed
  have i0: "imw - 0 = imw" by simp
  from filter_row_spec [OF i0 Suc.prems(2) Suc.prems(3) Suc.prems(5) rb, of minc]
  obtain out1 where r1: "filter_row franges (f32 (1 / 16)) minc winSize stride imw 0 colStart winStart out
       = Inr out1"
    and l1: "length out1 = length out"
    and n1: "\<forall>i. out1 ! i = (if colStart \<le> i \<and> i < colStart + imw
                      then filtered_pixel franges minc winSize stride i else out ! i)"
    by blast
  have l: "length out1 = length franges" using l1 Suc.prems(2) by simp
  have o: "winStart + stride + (winSize div 2 + stride * (winSize div 2)) = colStart + stride"
    using Suc.prems(5) by simp
  have b: "0 < k \<longrightarrow> colStart + stride + (k - 1) * stride + imw \<le> length franges \<and>
      winStart + stride + (k - 1) * stride + (imw - 1) + (winSize - 1) * stride + winSize
        \<le> length franges"
  proof
    assume "0 < k"
    then have "k * stride = stride + (k - 1) * stride" by (cases k) simp_all
    with c w show "colStart + stride + (k - 1) * stride + imw \<le> length franges \<and>
      winStart + stride + (k - 1) * stride + (imw - 1) + (winSize - 1) * stride + winSize
        \<le> length franges" by simp
  qed
  from Suc.IH [OF k l Suc.prems(3) Suc.prems(4) o b]
  obtain out' where r: "filter_rows franges (f32 (1 / 16)) minc winSize stride imw imh (yIdx + 1)
        (colStart + stride) (winStart + stride) out1 = Inr out'"
    and lo: "length out' = length out1"
    and n: "\<forall>i. out' ! i = (if \<exists>yy<k. colStart + stride + yy * stride \<le> i \<and>
                                i < colStart + stride + yy * stride + imw
                      then filtered_pixel franges minc winSize stride i else out1 ! i)"
    by blast
  have e: "filter_rows franges (f32 (1 / 16)) minc winSize stride imw imh yIdx colStart winStart out
       = Inr out'"
    apply (subst filter_rows.simps)
    using r r1 by (simp add: y)
  have "out' ! i = (if \<exists>yy<Suc k. colStart + yy * stride \<le> i \<and> i < colStart + yy * stride + imw
                      then filtered_pixel franges minc winSize stride i else out ! i)" for i
  proof -
    define Q where "Q \<longleftrightarrow> (\<exists>yy<k. colStart + stride + yy * stride \<le> i \<and>
                                i < colStart + stride + yy * stride + imw)"
    have q: "(\<exists>yy<k. colStart + Suc yy * stride \<le> i \<and> i < colStart + Suc yy * stride + imw) = Q"
      unfolding Q_def by (simp add: add.assoc)
    from n [rule_format, of i] have a: "out' ! i = (if Q
                      then filtered_pixel franges minc winSize stride i else out1 ! i)"
      unfolding Q_def .
    show ?thesis
      unfolding Ex_less_Suc2 q using a n1 [rule_format, of i] by (cases Q) simp_all
  qed
  with e lo l1 show ?case by simp
qed

lemma region_iff_interior:
  fixes h w ws y x :: nat
  assumes hw: "2 * (ws div 2) < h" "2 * (ws div 2) < w" and y: "y < h" and x: "x < w"
  shows "(\<exists>yy < h - 2 * (ws div 2).
            ws div 2 + w * (ws div 2) + yy * w \<le> y * w + x \<and>
            y * w + x < ws div 2 + w * (ws div 2) + yy * w + (w - 2 * (ws div 2)))
         \<longleftrightarrow> interior (h, w) ws y x"
proof
  define a where "a = ws div 2"
  assume "\<exists>yy < h - 2 * (ws div 2).
            ws div 2 + w * (ws div 2) + yy * w \<le> y * w + x \<and>
            y * w + x < ws div 2 + w * (ws div 2) + yy * w + (w - 2 * (ws div 2))"
  then obtain yy where yy: "yy < h - 2 * a" and lo: "a + w * a + yy * w \<le> y * w + x"
    and hi: "y * w + x < a + w * a + yy * w + (w - 2 * a)" unfolding a_def by blast
  have e: "a + w * a + yy * w = (a + yy) * w + a" by (simp add: algebra_simps)
  from lo x have "(a + yy) * w < (y + 1) * w" unfolding e by (simp add: algebra_simps)
  then have 1: "a + yy < y + 1" by (simp only: mult_less_cancel2)
  from hi hw(2) have "y * w < (a + yy + 1) * w" unfolding e a_def by (simp add: algebra_simps)
  then have 2: "y < a + yy + 1" by (simp only: mult_less_cancel2)
  from 1 2 have yeq: "y = a + yy" by simp
  from lo have 3: "a \<le> x" unfolding e yeq by simp
  from hi have 4: "x < w - a" unfolding e yeq using hw(2) unfolding a_def by simp
  from yy yeq have 5: "a \<le> y" "y < h - a" by simp_all
  from 3 4 5 show "interior (h, w) ws y x" by (simp add: interior_def a_def)
next
  define a where "a = ws div 2"
  assume "interior (h, w) ws y x"
  then have i: "a \<le> y" "y < h - a" "a \<le> x" "x < w - a" by (simp_all add: interior_def a_def)
  have e: "a + w * a + (y - a) * w = y * w + a"
    using i(1) by (simp add: algebra_simps flip: add_mult_distrib2) 
  have "y - a < h - 2 * a" using i by simp
  moreover have "a + w * a + (y - a) * w \<le> y * w + x" unfolding e using i by simp
  moreover have "y * w + x < a + w * a + (y - a) * w + (w - 2 * a)" unfolding e using i hw(2)
    unfolding a_def by simp
  ultimately show "\<exists>yy < h - 2 * (ws div 2).
            ws div 2 + w * (ws div 2) + yy * w \<le> y * w + x \<and>
            y * w + x < ws div 2 + w * (ws div 2) + yy * w + (w - 2 * (ws div 2))"
    unfolding a_def by blast
qed

lemma image_bounds:
  fixes h w ws :: nat
  assumes ws: "0 < ws" and hh: "2 * (ws div 2) < h" and ww: "2 * (ws div 2) < w"
  shows "ws div 2 + w * (ws div 2) + (h - 2 * (ws div 2) - 1) * w + (w - 2 * (ws div 2)) \<le> h * w"
    and "0 + (h - 2 * (ws div 2) - 1) * w + (w - 2 * (ws div 2) - 1) + (ws - 1) * w + ws \<le> h * w"
proof -
  define a where "a = ws div 2"
  define b where "b = h - 2 * a - 1"
  have h: "h = b + 2 * a + 1" using hh unfolding a_def b_def by simp
  have hm: "h * w = b * w + 2 * (a * w) + w" unfolding h by (simp add: algebra_simps)
  have aw: "a \<le> a * w" using ww by (cases w) simp_all
  have w2: "ws \<le> 2 * a + 1" unfolding a_def by arith
  have w3: "(ws - 1) * w \<le> 2 * (a * w)"
  proof -
    from w2 have "ws - 1 \<le> 2 * a" by simp
    then have "(ws - 1) * w \<le> (2 * a) * w" by (rule mult_le_mono1)
    then show ?thesis by (simp add: algebra_simps)
  qed
  have "a + w * a + b * w + (w - 2 * a) \<le> h * w"
    unfolding hm using aw ww unfolding a_def [symmetric] by (simp add: algebra_simps)
  then show "ws div 2 + w * (ws div 2) + (h - 2 * (ws div 2) - 1) * w + (w - 2 * (ws div 2)) \<le> h * w"
    unfolding a_def b_def .
  have "0 + b * w + (w - 2 * a - 1) + (ws - 1) * w + ws \<le> h * w"
    unfolding hm using w2 w3 ww unfolding a_def [symmetric] by linarith
  then show "0 + (h - 2 * (ws div 2) - 1) * w + (w - 2 * (ws div 2) - 1) + (ws - 1) * w + ws \<le> h * w"
    unfolding a_def b_def .
qed

lemma filter_image:
  fixes h w ws :: nat
  assumes ws: "0 < ws" and hh: "2 * (ws div 2) < h" and ww: "2 * (ws div 2) < w"
    and len: "h * w \<le> length ranges"
  shows "\<exists>out. filter_rows ranges (f32 (1 / 16)) minc ws w (w - 2 * (ws div 2)) (h - 2 * (ws div 2)) 0
            (ws div 2 + w * (ws div 2)) 0 ranges = Inr out \<and>
          length out = length ranges \<and>
          (\<forall>y x. y < h \<and> x < w \<longrightarrow>
             out ! (y * w + x) = (if interior (h, w) ws y x
                                  then filtered_pixel ranges minc ws w (y * w + x)
                                  else ranges ! (y * w + x))) \<and>
          (\<forall>i. h * w \<le> i \<longrightarrow> out ! i = ranges ! i)"
proof -
  note b = image_bounds [OF ws hh ww]
  have k: "h - 2 * (ws div 2) - 0 = h - 2 * (ws div 2)" by simp
  have imw: "0 < w - 2 * (ws div 2)" using ww by simp
  have off: "0 + (ws div 2 + w * (ws div 2)) = ws div 2 + w * (ws div 2)" by simp
  have bb: "0 < h - 2 * (ws div 2) \<longrightarrow>
      ws div 2 + w * (ws div 2) + (h - 2 * (ws div 2) - 1) * w + (w - 2 * (ws div 2)) \<le> length ranges \<and>
      0 + (h - 2 * (ws div 2) - 1) * w + (w - 2 * (ws div 2) - 1) + (ws - 1) * w + ws \<le> length ranges"
    using b len by (intro impI conjI) (erule le_trans, assumption)+
  from filter_rows_spec [OF k refl ws imw off bb, of minc]
  obtain out where r: "filter_rows ranges (f32 (1 / 16)) minc ws w (w - 2 * (ws div 2))
      (h - 2 * (ws div 2)) 0 (ws div 2 + w * (ws div 2)) 0 ranges = Inr out"
    and l: "length out = length ranges"
    and n: "\<forall>i. out ! i = (if \<exists>yy < h - 2 * (ws div 2).
                ws div 2 + w * (ws div 2) + yy * w \<le> i \<and>
                i < ws div 2 + w * (ws div 2) + yy * w + (w - 2 * (ws div 2))
              then filtered_pixel ranges minc ws w i else ranges ! i)"
    by blast
  have p: "out ! (y * w + x) = (if interior (h, w) ws y x
                                  then filtered_pixel ranges minc ws w (y * w + x)
                                  else ranges ! (y * w + x))" if "y < h" "x < w" for y x
    using n [rule_format, of "y * w + x"] unfolding region_iff_interior [OF hh ww that] .
  have q: "out ! i = ranges ! i" if i: "h * w \<le> i" for i
  proof -
    have "\<not> (\<exists>yy < h - 2 * (ws div 2).
                ws div 2 + w * (ws div 2) + yy * w \<le> i \<and>
                i < ws div 2 + w * (ws div 2) + yy * w + (w - 2 * (ws div 2)))"
    proof
      assume "\<exists>yy < h - 2 * (ws div 2).
                ws div 2 + w * (ws div 2) + yy * w \<le> i \<and>
                i < ws div 2 + w * (ws div 2) + yy * w + (w - 2 * (ws div 2))"
      then obtain yy where yy: "yy < h - 2 * (ws div 2)"
        and hi: "i < ws div 2 + w * (ws div 2) + yy * w + (w - 2 * (ws div 2))" by blast
      from yy have "yy \<le> h - 2 * (ws div 2) - 1" by simp
      then have "yy * w \<le> (h - 2 * (ws div 2) - 1) * w" by (rule mult_le_mono1)
      with hi b(1) i show False by linarith
    qed
    with n [rule_format, of i] show ?thesis by simp
  qed
  from r l p q show ?thesis by blast
qed

lemma removeOutliers_unfold:
  assumes "0 < L" "11 \<le> fst imSize" "11 \<le> snd imSize"
  shows "removeOutliers ranges L imSize =
     filter_rows ranges (f32 (1 / 16)) (lutNeighborCountTolerance ! clamp_level L)
       (lutWindowSize ! clamp_level L) (snd imSize)
       (snd imSize - 2 * (lutWindowSize ! clamp_level L div 2))
       (fst imSize - 2 * (lutWindowSize ! clamp_level L div 2)) 0
       (lutWindowSize ! clamp_level L div 2 + snd imSize * (lutWindowSize ! clamp_level L div 2)) 0 ranges"
proof -
  have c: "clamp_level L \<in> {1, 2, 3, 4, 5}"
    using assms(1) unfolding clamp_level_def MAX_NEAREST_NEIGHBOR_IDX_def by (simp add: min_def) arith
  have cl: "(if L > MAX_NEAREST_NEIGHBOR_IDX then MAX_NEAREST_NEIGHBOR_IDX else L) = clamp_level L"
    by (simp add: clamp_level_def min_def)
  have f: "flutRangeToleranceFrac ! clamp_level L = f32 (1 / 16)"
    using c unfolding flutRangeToleranceFrac_def by (elim insertE emptyE) simp_all
  show ?thesis
    using assms unfolding removeOutliers_def cl Let_def f
    by (simp add: lutNeighborCountTolerance_def)
qed

lemma window_of_level:
  assumes "0 < L"
  shows "0 < lutWindowSize ! clamp_level L" "2 * (lutWindowSize ! clamp_level L div 2) < 11"
proof -
  have c: "clamp_level L \<in> {1, 2, 3, 4, 5}"
    using assms(1) unfolding clamp_level_def MAX_NEAREST_NEIGHBOR_IDX_def by (simp add: min_def) arith
  then show "0 < lutWindowSize ! clamp_level L" "2 * (lutWindowSize ! clamp_level L div 2) < 11"
    unfolding lutWindowSize_def by (elim insertE emptyE; simp)+
qed

lemma removeOutliers_pixels:
  assumes L: "0 < L" and h: "11 \<le> fst imSize" and w: "11 \<le> snd imSize"
    and len: "fst imSize * snd imSize \<le> length ranges"
  shows "\<exists>out. removeOutliers ranges L imSize = Inr out \<and> length out = length ranges \<and>
         (\<forall>y x. y < fst imSize \<and> x < snd imSize \<longrightarrow>
            out ! (y * snd imSize + x) =
              (if interior imSize (lutWindowSize ! clamp_level L) y x
               then filtered_pixel ranges (lutNeighborCountTolerance ! clamp_level L)
                      (lutWindowSize ! clamp_level L) (snd imSize) (y * snd imSize + x)
               else ranges ! (y * snd imSize + x))) \<and>
         (\<forall>i. fst imSize * snd imSize \<le> i \<longrightarrow> out ! i = ranges ! i)"
proof -
  note wl = window_of_level [OF L]
  have hh: "2 * (lutWindowSize ! clamp_level L div 2) < fst imSize" using wl(2) h by simp
  have ww: "2 * (lutWindowSize ! clamp_level L div 2) < snd imSize" using wl(2) w by simp
  from filter_image [OF wl(1) hh ww len, of "lutNeighborCountTolerance ! clamp_level L"]
  show ?thesis unfolding removeOutliers_unfold [OF L h w] by simp
qed

lemma removeOutliers_identity:
  "removeOutliers ranges 0 imSize = Inr ranges"
  "fst imSize < 11 \<or> snd imSize < 11 \<Longrightarrow> removeOutliers ranges L imSize = Inr ranges"
  by (simp_all add: removeOutliers_def lutNeighborCountTolerance_def)

lemma filtered_pixel_zero: "ranges ! i = 0 \<Longrightarrow> filtered_pixel ranges m ws s i = 0"
  by (simp add: filtered_pixel_def Let_def)

lemma nn_image_nth: "i < 121 \<Longrightarrow> nn_image ! i = (if i = 71 then 17 else if i = 60 then 16 else if i = 49 then 17 else 0)"
  by (simp add: nn_image_def nth_list_update)

lemma nn_image_length: "length nn_image = 121" by (simp add: nn_image_def)

lemma nn_pixels:
  "filtered_pixel nn_image 3 3 11 49 = 0"
  "filtered_pixel nn_image 3 3 11 60 = 16"
  "filtered_pixel nn_image 3 3 11 71 = 0"
  "spec_pixel nn_image 3 3 11 60 = 0"
  by code_simp+

lemma nn_levels: "clamp_level 1 = 1" "lutWindowSize ! 1 = 3" "lutNeighborCountTolerance ! 1 = 3"
  by (simp_all add: clamp_level_def MAX_NEAREST_NEIGHBOR_IDX_def lutWindowSize_def
      lutNeighborCountTolerance_def)

lemma nn_image_filtered: "removeOutliers nn_image 1 (11, 11) = Inr ((replicate 121 0)[60 := 16])"
proof -
  have ws: "0 < (3 :: nat)" "2 * (3 div 2) < (11 :: nat)" "11 * 11 \<le> length nn_image"
    by (simp_all add: nn_image_length)
  from filter_image [OF ws(1) ws(2) ws(2) ws(3), of 3]
  obtain out where r: "filter_rows nn_image (f32 (1 / 16)) 3 3 11 (11 - 2 * (3 div 2))
      (11 - 2 * (3 div 2)) 0 (3 div 2 + 11 * (3 div 2)) 0 nn_image = Inr out"
    and l: "length out = length nn_image"
    and p: "\<forall>y x. y < 11 \<and> x < 11 \<longrightarrow>
             out ! (y * 11 + x) = (if interior (11, 11) 3 y x
                                  then filtered_pixel nn_image 3 3 11 (y * 11 + x)
                                  else nn_image ! (y * 11 + x))"
    by blast
  have e: "removeOutliers nn_image 1 (11, 11) = Inr out"
    apply (subst removeOutliers_unfold)
       apply (simp_all only: nn_levels)
    using r by simp_all
  have "out = (replicate 121 0)[60 := 16]"
  proof (rule nth_equalityI)
    show "length out = length ((replicate 121 0)[60 := 16 :: rat])" using l nn_image_length by simp
  next
    fix i assume "i < length out"
    then have i: "i < 121" using l nn_image_length by simp
    then have yx: "i div 11 < 11" "i mod 11 < 11" "i div 11 * 11 + i mod 11 = i" by simp_all
    from p [rule_format, of "i div 11" "i mod 11"] yx
    have o: "out ! i = (if interior (11, 11) 3 (i div 11) (i mod 11)
                                  then filtered_pixel nn_image 3 3 11 i else nn_image ! i)" by simp
    consider "i = 49" | "i = 60" | "i = 71" | "i \<noteq> 49 \<and> i \<noteq> 60 \<and> i \<noteq> 71" by blast
    then show "out ! i = (replicate 121 0)[60 := 16] ! i"
    proof cases
      case 1 then show ?thesis using o by (simp add: nn_pixels interior_def)
    next
      case 2 then show ?thesis using o by (simp add: nn_pixels interior_def)
    next
      case 3 then show ?thesis using o by (simp add: nn_pixels interior_def)
    next
      case 4
      with i have z: "nn_image ! i = 0" by (simp add: nn_image_nth)
      with o i 4 show ?thesis by (simp add: filtered_pixel_zero)
    qed
  qed
  with e show ?thesis by simp
qed

text \<open>
  Claim C8, as stated, fails on the tolerance. In the 11 by 11 image \<open>nn_image\<close> the
  centre pixel has range 16 m and the pixels above and below it 17 m. At level 1 (window
  3, at least 3 matches) the filter keeps the centre pixel: a window entry matches when
  its difference to the centre is at most \<open>1/1024 + range/16\<close>, here \<open>1025/1024\<close>,
  so the two neighbours and the pixel itself match. By the words of the claim an entry
  matches when the difference is less than \<open>max(1/1024, range/16) = 1\<close>; only the pixel
  itself does, and the pixel would be zeroed.
\<close>

theorem removeOutliers_tolerance_counterexample:
  "removeOutliers nn_image 1 (11, 11) = Inr ((replicate 121 0)[60 := 16]) \<and>
   (replicate 121 0)[60 := 16 :: rat] ! 60 = 16 \<and>
   nn_image ! 60 = 16 \<and>
   lutWindowSize ! 1 = 3 \<and> lutNeighborCountTolerance ! 1 = 3 \<and>
   spec_matches nn_image 16 48 3 11 = 1 \<and>
   spec_pixel nn_image 3 3 11 60 = 0"
proof -
  have m: "spec_matches nn_image 16 48 3 11 = 1" by code_simp
  have n: "(replicate 121 0)[60 := 16 :: rat] ! 60 = 16" "nn_image ! 60 = 16"
    by (simp_all add: nn_image_nth)
  from nn_image_filtered n nn_levels(2) nn_levels(3) m nn_pixels(4) show ?thesis
    by (intro conjI)
qed

text \<open>
  Claim C8, amended. At level 0, and for an image with fewer than 11 rows or fewer than
  11 columns, \<open>removeOutliers\<close> is the identity. For an image of at least 11 rows and
  11 columns that fits its vector and a level \<open>L \<ge> 1\<close> (levels above 5 act as
  level 5), the filter returns a vector of the same length in which: with the window
  size \<open>winSize\<close> taken from \<open>{3, 5, 6, 7, 9}\<close> and the minimum count from
  \<open>{3, 5, 5, 7, 11}\<close> by level 1 to 5, every pixel at least \<open>winSize div 2\<close> rows and
  columns away from the four borders is zeroed when fewer than the minimum count of the
  entries of its window (a square of \<open>winSize\<close> rows and columns that starts
  \<open>winSize div 2\<close> rows above and columns left of the pixel, the pixel included) differ
  from the pixel's range by at most the binary32 value of \<open>1/1024 + range/16\<close>, and is
  unchanged otherwise; every other pixel, and everything of the vector behind the image,
  is unchanged.
\<close>

theorem removeOutliers_filter:
  "removeOutliers ranges 0 imSize = Inr ranges \<and>
   (fst imSize < 11 \<or> snd imSize < 11 \<longrightarrow> removeOutliers ranges L imSize = Inr ranges) \<and>
   (0 < L \<and> 11 \<le> fst imSize \<and> 11 \<le> snd imSize \<and> fst imSize * snd imSize \<le> length ranges \<longrightarrow>
      (\<exists>out. removeOutliers ranges L imSize = Inr out \<and> length out = length ranges \<and>
         (\<forall>y x. y < fst imSize \<and> x < snd imSize \<longrightarrow>
            out ! (y * snd imSize + x) =
              (if interior imSize (lutWindowSize ! clamp_level L) y x
               then filtered_pixel ranges (lutNeighborCountTolerance ! clamp_level L)
                      (lutWindowSize ! clamp_level L) (snd imSize) (y * snd imSize + x)
               else ranges ! (y * snd imSize + x))) \<and>
         (\<forall>i. fst imSize * snd imSize \<le> i \<longrightarrow> out ! i = ranges ! i)))"
proof (intro conjI impI)
  show "removeOutliers ranges 0 imSize = Inr ranges" by (rule removeOutliers_identity(1))
next
  assume "fst imSize < 11 \<or> snd imSize < 11"
  then show "removeOutliers ranges L imSize = Inr ranges" by (rule removeOutliers_identity(2))
next
  assume "0 < L \<and> 11 \<le> fst imSize \<and> 11 \<le> snd imSize \<and> fst imSize * snd imSize \<le> length ranges"
  then show "\<exists>out. removeOutliers ranges L imSize = Inr out \<and> length out = length ranges \<and>
         (\<forall>y x. y < fst imSize \<and> x < snd imSize \<longrightarrow>
            out ! (y * snd imSize + x) =
              (if interior imSize (lutWindowSize ! clamp_level L) y x
               then filtered_pixel ranges (lutNeighborCountTolerance ! clamp_level L)
                      (lutWindowSize ! clamp_level L) (snd imSize) (y * snd imSize + x)
               else ranges ! (y * snd imSize + x))) \<and>
         (\<forall>i. fst imSize * snd imSize \<le> i \<longrightarrow> out ! i = ranges ! i)"
    by (intro removeOutliers_pixels) simp_all
qed

theorem removeOutliers_filter_witness:
  "0 < (1 :: nat) \<and> 11 \<le> fst (11 :: nat, 11 :: nat) \<and> 11 \<le> snd (11 :: nat, 11 :: nat) \<and>
   fst (11 :: nat, 11 :: nat) * snd (11 :: nat, 11 :: nat) \<le> length nn_image \<and>
   interior (11, 11) (lutWindowSize ! clamp_level 1) 5 5 \<and>
   (\<exists>out. removeOutliers nn_image 1 (11, 11) = Inr out \<and> length out = length nn_image \<and>
      out ! (5 * 11 + 5) = filtered_pixel nn_image (lutNeighborCountTolerance ! clamp_level 1)
                      (lutWindowSize ! clamp_level 1) 11 (5 * 11 + 5) \<and>
      out ! (0 * 11 + 3) = nn_image ! (0 * 11 + 3)) \<and>
   filtered_pixel nn_image (lutNeighborCountTolerance ! clamp_level 1)
                      (lutWindowSize ! clamp_level 1) 11 (5 * 11 + 5) = 16"
proof -
  have a: "0 < (1 :: nat) \<and> 11 \<le> fst (11 :: nat, 11 :: nat) \<and> 11 \<le> snd (11 :: nat, 11 :: nat) \<and>
    fst (11 :: nat, 11 :: nat) * snd (11 :: nat, 11 :: nat) \<le> length nn_image"
    by (simp add: nn_image_length)
  have i: "interior (11, 11) (lutWindowSize ! clamp_level 1) 5 5"
    "\<not> interior (11, 11) (lutWindowSize ! clamp_level 1) 0 3"
    unfolding nn_levels by (simp_all add: interior_def)
  have f: "filtered_pixel nn_image (lutNeighborCountTolerance ! clamp_level 1)
                      (lutWindowSize ! clamp_level 1) 11 (5 * 11 + 5) = 16"
    unfolding nn_levels using nn_pixels(2) by simp
  from removeOutliers_filter [of nn_image "(11, 11)" 1, THEN conjunct2, THEN conjunct2, rule_format, OF a]
  obtain out where r: "removeOutliers nn_image 1 (11, 11) = Inr out" "length out = length nn_image"
    and p: "\<forall>y x. y < fst (11 :: nat, 11 :: nat) \<and> x < snd (11 :: nat, 11 :: nat) \<longrightarrow>
            out ! (y * snd (11 :: nat, 11 :: nat) + x) =
              (if interior (11, 11) (lutWindowSize ! clamp_level 1) y x
               then filtered_pixel nn_image (lutNeighborCountTolerance ! clamp_level 1)
                      (lutWindowSize ! clamp_level 1) (snd (11 :: nat, 11 :: nat))
                      (y * snd (11 :: nat, 11 :: nat) + x)
               else nn_image ! (y * snd (11 :: nat, 11 :: nat) + x))"
    by blast
  from p [rule_format, of 5 5] i(1)
  have p1: "out ! (5 * 11 + 5) = filtered_pixel nn_image (lutNeighborCountTolerance ! clamp_level 1)
                      (lutWindowSize ! clamp_level 1) 11 (5 * 11 + 5)"
    by (simp only: fst_conv snd_conv if_True) simp
  from p [rule_format, of 0 3] i(2)
  have p2: "out ! (0 * 11 + 3) = nn_image ! (0 * 11 + 3)"
    by (simp only: fst_conv snd_conv if_False) simp
  from a i(1) r p1 p2 f show ?thesis by blast
qed

section \<open>Theorems: per-ROI validation\<close>

lemma unat_getmd_le: "unat (getmd md a) \<le> 4095"
proof -
  have "unat (drop_bit 4 (md ! a)) = drop_bit 4 (unat (md ! a))" by (rule unat_drop_bit_eq)
  also have "\<dots> = unat (md ! a) div 2 ^ 4" by (rule drop_bit_eq_div)
  finally have "unat (drop_bit 4 (md ! a)) = unat (md ! a) div 2 ^ 4" .
  moreover have "unat (md ! a) < 2 ^ 16" using unsigned_less [of "md ! a"] by simp
  ultimately show ?thesis unfolding getmd_def by simp
qed

lemma getRoiNumRows_le: "getRoiNumRows md \<le> 4095"
  unfolding getRoiNumRows_def by (rule unat_getmd_le)

lemma getNumPermutations_le: "getNumPermutations md \<le> 3"
  by (simp add: getNumPermutations_def)

lemma getNumModulationFrequencies_le: "getNumModulationFrequencies md \<le> 2"
  by (simp add: getNumModulationFrequencies_def)

lemma DMFD_frequencies: "getSensorMode md = SENSOR_MODE_DMFD \<Longrightarrow> getNumModulationFrequencies md = 2"
  by (simp add: getNumModulationFrequencies_def SENSOR_MODE_DMFD_def SENSOR_MODE_IMAGE_def
      SENSOR_MODE_SMFD_def)

lemma expectedBytes_exact:
  "expectedBytes md = 2 * getRoiNumRows md * ROI_NUM_COLUMNS * NUM_GPIXEL_PHASES *
      getNumModulationFrequencies md * getNumPermutations md"
proof -
  define X where "X = getRoiNumRows md * (getNumModulationFrequencies md * getNumPermutations md)"
  have "X \<le> 4095 * (2 * 3)" unfolding X_def
    by (intro mult_le_mono getRoiNumRows_le getNumPermutations_le getNumModulationFrequencies_le)
  then have "3840 * X < 2 ^ 32" by simp
  moreover have "2 * getRoiNumRows md * ROI_NUM_COLUMNS * NUM_GPIXEL_PHASES *
      getNumModulationFrequencies md * getNumPermutations md = 3840 * X"
    unfolding X_def by (simp add: ROI_NUM_COLUMNS_def NUM_GPIXEL_PHASES_def)
  ultimately have "2 * getRoiNumRows md * ROI_NUM_COLUMNS * NUM_GPIXEL_PHASES *
      getNumModulationFrequencies md * getNumPermutations md < 2 ^ 32"
    by (simp only:)
  then show ?thesis unfolding expectedBytes_def by simp
qed

lemma validateMetadata_accepted:
  assumes v: "validateMetadata inst roi numBytes" and n: "numBytes < 2 ^ 32"
  shows "SIZEOF_Metadata_t \<le> numBytes"
    and "2 * MD_ROW_SHORTS \<le> numBytes \<Longrightarrow> 2 * MD_ROW_SHORTS + expectedBytes roi \<le> numBytes"
    and "getSensorMode roi = SENSOR_MODE_DMFD"
    and "getF0ModulationIndex roi = getF1ModulationIndex roi + 1"
    and "rtd_veryFirstRoiReceived inst \<or> (getFirstRoi roi (rtd_fovIdx inst) \<and> \<not> wasPreviousRoiSaturated roi)"
proof -
  from v show "SIZEOF_Metadata_t \<le> numBytes"
    by (simp add: validateMetadata_def chkBufMetadata_def split: if_splits)
  from v have c: "chkBufDataOnly roi ((numBytes + 2 ^ 32 - ROI_NUM_COLUMNS * NUM_GPIXEL_PHASES * 2) mod 2 ^ 32)"
    and vv: "validateMetadataValues roi"
    by (simp_all add: validateMetadata_def Let_def split: if_splits)
  from vv show "getSensorMode roi = SENSOR_MODE_DMFD"
    and "getF0ModulationIndex roi = getF1ModulationIndex roi + 1"
    by (simp_all add: validateMetadataValues_def split: if_splits)
  from v show "rtd_veryFirstRoiReceived inst \<or> (getFirstRoi roi (rtd_fovIdx inst) \<and> \<not> wasPreviousRoiSaturated roi)"
    by (simp add: validateMetadata_def Let_def split: if_splits) blast
  show "2 * MD_ROW_SHORTS + expectedBytes roi \<le> numBytes" if b: "2 * MD_ROW_SHORTS \<le> numBytes"
  proof -
    from b have "numBytes + 2 ^ 32 - ROI_NUM_COLUMNS * NUM_GPIXEL_PHASES * 2 = (numBytes - 3840) + 2 ^ 32"
      by (simp add: ROI_NUM_COLUMNS_def NUM_GPIXEL_PHASES_def MD_ROW_SHORTS_def IMAGE_WIDTH_def)
    moreover from n have "numBytes - 3840 < 2 ^ 32" by arith
    ultimately have "(numBytes + 2 ^ 32 - ROI_NUM_COLUMNS * NUM_GPIXEL_PHASES * 2) mod 2 ^ 32 = numBytes - 3840"
      by (simp only: mod_add_self2 mod_less)
    with c b show ?thesis
      by (simp add: chkBufDataOnly_def MD_ROW_SHORTS_def IMAGE_WIDTH_def NUM_GPIXEL_PHASES_def)
  qed
qed

lemma processOneRoi_invalid:
  "\<not> validateMetadata inst roi numBytes \<Longrightarrow>
   processOneRoi inst roi numBytes = Inr (if numBytes = 0 then ExitNoBuffer else ExitInvalidMetadata, inst)"
  by (simp add: processOneRoi_def)

lemmas getter_defs = getmd_def getsmd_def getmda_def getStripeModeEnabled_def getFrameCompleted_def
  getFirstRoi_def getNumPermutations_def getSensorMode_def getNumModulationFrequencies_def
  getRoiStartRow_def getRoiNumRows_def getF0ModulationIndex_def getF1ModulationIndex_def
  getBinModeX_def getBinningX_def getBinningY_def getFovStartRow_def getFovNumRows_def
  getFovNumRois_def getFullImageWidth_def getFullImageHeight_def getDisableRtd_def
  wasPreviousRoiSaturated_def isHdrDisabled_def getScanTableTag_def getRandomFovTag_def
  getTimestamp_def

lemmas md_consts = OFS_defs OFS_saturationThreshold_def ROI_NUM_COLUMNS_def NUM_GPIXEL_PHASES_def
  IMAGE_WIDTH_def MAX_IMAGE_HEIGHT_def MD_ROW_SHORTS_def SENSOR_MODE_IMAGE_def SENSOR_MODE_SMFD_def
  SENSOR_MODE_DMFD_def SENSOR_MODE_HDR_RETRY_def SENSOR_MODE_MASK_def START_STOP_FLAG_FIRST_ROI_def
  START_STOP_FLAG_FRAME_COMPLETED_def RTD_ALG_COMMON_STRIPE_MODE_def RTD_ALG_COMMON_DISABLE_RTD_def
  SATURATION_THRESHOLD_def SIZEOF_Metadata_t_def MD_WORDS_def

lemma drop_push_4: "drop_bit 4 (push_bit 4 (w :: 16 word)) = take_bit 12 w"
  by (rule bit_word_eqI) (auto simp add: bit_simps)

lemma grid_roi_length: "length (grid_roi f0 f1 r sf tg ft) = 9600"
  by (simp add: grid_roi_def)

lemma grid_roi_getters:
  "getRoiStartRow (grid_roi f0 f1 r sf tg ft) = unat (take_bit 12 r)"
  "getRoiNumRows (grid_roi f0 f1 r sf tg ft) = 2"
  "getF0ModulationIndex (grid_roi f0 f1 r sf tg ft) = unat (take_bit 12 f0)"
  "getF1ModulationIndex (grid_roi f0 f1 r sf tg ft) = unat (take_bit 12 f1)"
  "getNumPermutations (grid_roi f0 f1 r sf tg ft) = 1"
  "getSensorMode (grid_roi f0 f1 r sf tg ft) = 0"
  "getNumModulationFrequencies (grid_roi f0 f1 r sf tg ft) = 2"
  "isHdrDisabled (grid_roi f0 f1 r sf tg ft)"
  "\<not> wasPreviousRoiSaturated (grid_roi f0 f1 r sf tg ft)"
  "getScanTableTag (grid_roi f0 f1 r sf tg ft) = unat (take_bit 12 tg)"
  "getTimestamp (grid_roi f0 f1 r sf tg ft) = 0"
  by (simp_all add: getter_defs md_consts grid_roi_def nth_append drop_push_4)

lemma grid_roi_slot0:
  "getFirstRoi (grid_roi f0 f1 r sf tg ft) 0 \<longleftrightarrow> take_bit 12 sf AND 1 \<noteq> 0"
  "getFrameCompleted (grid_roi f0 f1 r sf tg ft) 0 \<longleftrightarrow> take_bit 12 sf AND 2 \<noteq> 0"
  "\<not> getStripeModeEnabled (grid_roi f0 f1 r sf tg ft) 0"
  "\<not> getDisableRtd (grid_roi f0 f1 r sf tg ft) 0"
  "getRandomFovTag (grid_roi f0 f1 r sf tg ft) 0 = unat (take_bit 12 ft)"
  "getBinningX (grid_roi f0 f1 r sf tg ft) 0 = 1"
  "getBinningY (grid_roi f0 f1 r sf tg ft) 0 = 1"
  "getFovStartRow (grid_roi f0 f1 r sf tg ft) 0 = 0"
  "getFovNumRows (grid_roi f0 f1 r sf tg ft) 0 = 6"
  "getFovNumRois (grid_roi f0 f1 r sf tg ft) 0 = 3"
  "getFullImageHeight (grid_roi f0 f1 r sf tg ft) 0 = 6"
  "getFullImageWidth (grid_roi f0 f1 r sf tg ft) 0 = 640"
  by (simp_all add: getter_defs md_consts grid_roi_def nth_append drop_push_4)

lemma grid_roi_valid:
  "validateMetadata rtd_slot0 (grid_roi 8 7 0 1 0x456 0x123) grid_roi_bytes"
  "\<not> validateMetadata rtd_slot0 (grid_roi 7 8 0 1 0x456 0x123) grid_roi_bytes"
  by (simp_all add: validateMetadata_def chkBufMetadata_def chkBufDataOnly_def expectedBytes_def
      validateMetadataValues_def grid_roi_getters grid_roi_slot0 md_consts grid_roi_bytes_def
      rtd_slot0_def)

text \<open>
  Claim C3, as stated, fails on the order of the modulation indices. The validation
  requires \<open>f0 - f1 = 1\<close> ("F0 must be the lower frequency": the higher index is the
  lower frequency), so an ROI with the indices 8 and 7 is accepted although
  \<open>f0 = f1 - 1\<close> does not hold, and the ROI with the indices 7 and 8, for which it
  holds, is rejected.
\<close>

theorem validateMetadata_index_order_counterexample:
  "validateMetadata rtd_slot0 (grid_roi 8 7 0 1 0x456 0x123) grid_roi_bytes \<and>
   getF0ModulationIndex (grid_roi 8 7 0 1 0x456 0x123) = 8 \<and>
   getF1ModulationIndex (grid_roi 8 7 0 1 0x456 0x123) = 7 \<and>
   \<not> validateMetadata rtd_slot0 (grid_roi 7 8 0 1 0x456 0x123) grid_roi_bytes \<and>
   getF0ModulationIndex (grid_roi 7 8 0 1 0x456 0x123) = 7 \<and>
   getF1ModulationIndex (grid_roi 7 8 0 1 0x456 0x123) = 8"
  by (simp add: grid_roi_valid grid_roi_getters)

text \<open>
  Claim C3, amended. For a buffer size that fits \<open>uint32_t\<close>: per-ROI validation
  accepts an ROI only if the buffer has at least \<open>sizeof(Metadata_t)\<close> bytes, a buffer
  of at least one metadata row (3840 bytes) has at least the metadata row plus the
  expected raw bytes (2 bytes, ROI rows, 640 columns, 3 phases, 2 frequencies, and 3
  permutations unless the FPGA reduced them), the sensor mode is DMFD, and the two
  modulation indices are adjacent with \<open>f0 = f1 + 1\<close>. An ROI that the validation
  rejects is dropped: \<open>processOneRoi\<close> returns at once and leaves the engine
  unchanged.
\<close>

theorem validateMetadata_conditions:
  assumes "numBytes < 2 ^ 32"
  shows "(validateMetadata inst roi numBytes \<longrightarrow>
            SIZEOF_Metadata_t \<le> numBytes \<and>
            (2 * MD_ROW_SHORTS \<le> numBytes \<longrightarrow>
               2 * MD_ROW_SHORTS +
               2 * getRoiNumRows roi * ROI_NUM_COLUMNS * NUM_GPIXEL_PHASES * 2 * getNumPermutations roi
                 \<le> numBytes) \<and>
            getSensorMode roi = SENSOR_MODE_DMFD \<and>
            getF0ModulationIndex roi = getF1ModulationIndex roi + 1) \<and>
         (\<not> validateMetadata inst roi numBytes \<longrightarrow>
            processOneRoi inst roi numBytes =
              Inr (if numBytes = 0 then ExitNoBuffer else ExitInvalidMetadata, inst))"
proof (intro conjI impI)
  assume v: "validateMetadata inst roi numBytes"
  note a = validateMetadata_accepted [OF v assms]
  show "SIZEOF_Metadata_t \<le> numBytes" by (rule a(1))
  show "getSensorMode roi = SENSOR_MODE_DMFD" by (rule a(3))
  show "getF0ModulationIndex roi = getF1ModulationIndex roi + 1" by (rule a(4))
  assume "2 * MD_ROW_SHORTS \<le> numBytes"
  from a(2) [OF this] show "2 * MD_ROW_SHORTS +
               2 * getRoiNumRows roi * ROI_NUM_COLUMNS * NUM_GPIXEL_PHASES * 2 * getNumPermutations roi
                 \<le> numBytes"
    unfolding expectedBytes_exact DMFD_frequencies [OF a(3)] .
next
  assume "\<not> validateMetadata inst roi numBytes"
  then show "processOneRoi inst roi numBytes =
              Inr (if numBytes = 0 then ExitNoBuffer else ExitInvalidMetadata, inst)"
    by (rule processOneRoi_invalid)
qed

theorem validateMetadata_conditions_witness:
  "grid_roi_bytes < 2 ^ 32 \<and>
   validateMetadata rtd_slot0 (grid_roi 8 7 0 1 0x456 0x123) grid_roi_bytes \<and>
   2 * MD_ROW_SHORTS \<le> grid_roi_bytes \<and>
   2 * MD_ROW_SHORTS +
     2 * getRoiNumRows (grid_roi 8 7 0 1 0x456 0x123) * ROI_NUM_COLUMNS * NUM_GPIXEL_PHASES * 2 *
       getNumPermutations (grid_roi 8 7 0 1 0x456 0x123) \<le> grid_roi_bytes \<and>
   getSensorMode (grid_roi 8 7 0 1 0x456 0x123) = SENSOR_MODE_DMFD \<and>
   getF0ModulationIndex (grid_roi 8 7 0 1 0x456 0x123) =
     getF1ModulationIndex (grid_roi 8 7 0 1 0x456 0x123) + 1 \<and>
   \<not> validateMetadata rtd_slot0 (grid_roi 7 8 0 1 0x456 0x123) grid_roi_bytes \<and>
   processOneRoi rtd_slot0 (grid_roi 7 8 0 1 0x456 0x123) grid_roi_bytes =
     Inr (ExitInvalidMetadata, rtd_slot0)"
proof -
  have n: "grid_roi_bytes < 2 ^ 32" "2 * MD_ROW_SHORTS \<le> grid_roi_bytes" "grid_roi_bytes \<noteq> 0"
    by (simp_all add: grid_roi_bytes_def md_consts)
  from validateMetadata_conditions [OF n(1), of rtd_slot0 "grid_roi 8 7 0 1 0x456 0x123"]
    grid_roi_valid(1) n(2)
  have a: "2 * MD_ROW_SHORTS +
     2 * getRoiNumRows (grid_roi 8 7 0 1 0x456 0x123) * ROI_NUM_COLUMNS * NUM_GPIXEL_PHASES * 2 *
       getNumPermutations (grid_roi 8 7 0 1 0x456 0x123) \<le> grid_roi_bytes"
    "getSensorMode (grid_roi 8 7 0 1 0x456 0x123) = SENSOR_MODE_DMFD"
    "getF0ModulationIndex (grid_roi 8 7 0 1 0x456 0x123) =
       getF1ModulationIndex (grid_roi 8 7 0 1 0x456 0x123) + 1"
    by blast+
  from validateMetadata_conditions [OF n(1), of rtd_slot0 "grid_roi 7 8 0 1 0x456 0x123"]
    grid_roi_valid(2) n(3)
  have b: "processOneRoi rtd_slot0 (grid_roi 7 8 0 1 0x456 0x123) grid_roi_bytes =
     Inr (ExitInvalidMetadata, rtd_slot0)"
    by simp
  from n(1) grid_roi_valid(1) n(2) a grid_roi_valid(2) b show ?thesis by (intro conjI)
qed

end
